theory Spec2Isabelle
  imports Complex_Main "HOL-Library.Log_Nat"
begin

section \<open>Data model (src/types/product.types.ts)\<close>

text \<open>
  A \<open>Product\<close> is a JavaScript object. The numbers \<open>price\<close> and \<open>stock\<close> are
  JavaScript numbers; a field holds the value of a finite number, an exact rational, so the
  integrality test of \<open>validateProductStock\<close> stays a branch of the model, and the
  arithmetic of \<open>getStatistics\<close> on prices rounds its results to binary64. \<open>imageUrl\<close> and \<open>tags\<close> are
  optional properties. The field \<open>id\<close> is called \<open>idp\<close> because \<open>id\<close> is the identity of HOL.
\<close>

record product =
  idp :: string
  name :: string
  description :: string
  price :: rat
  category :: string
  stock :: rat
  imageUrl :: "string option"
  tags :: "string list option"
  isActive :: bool
  createdAt :: string
  updatedAt :: string

text \<open>
  \<open>CreateProduct\<close>: the body of a create request. The service reads \<open>isActive\<close> and
  \<open>tags\<close> through \<open>??\<close>, so both may be absent.
\<close>

record CreateProduct =
  name_c :: string
  description_c :: string
  price_c :: rat
  category_c :: string
  stock_c :: rat
  imageUrl_c :: "string option"
  tags_c :: "string list option"
  isActive_c :: "bool option"

text \<open>\<open>UpdateProduct\<close>: any subset of the create fields; \<open>None\<close> is an absent key.\<close>

record UpdateProduct =
  name_u :: "string option"
  description_u :: "string option"
  price_u :: "rat option"
  category_u :: "string option"
  stock_u :: "rat option"
  imageUrl_u :: "string option"
  tags_u :: "string list option"
  isActive_u :: "bool option"

text \<open>\<open>Partial<Product>\<close>, the argument of \<open>DataService.updateProduct\<close>.\<close>

record PartialProduct =
  id_p :: "string option"
  name_p :: "string option"
  description_p :: "string option"
  price_p :: "rat option"
  category_p :: "string option"
  stock_p :: "rat option"
  imageUrl_p :: "string option"
  tags_p :: "string list option"
  isActive_p :: "bool option"
  createdAt_p :: "string option"
  updatedAt_p :: "string option"

section \<open>Errors (class ApiError)\<close>

datatype ApiError = ApiError (message: string) (statusCode: nat) (errorCode: string)

definition badRequest :: "string \<Rightarrow> ApiError" where
  "badRequest m = ApiError m 400 ''BAD_REQUEST''"

definition notFound :: "string \<Rightarrow> ApiError" where
  "notFound m = ApiError m 404 ''NOT_FOUND''"

definition conflict :: "string \<Rightarrow> ApiError" where
  "conflict m = ApiError m 409 ''CONFLICT''"

definition internal :: "string \<Rightarrow> ApiError" where
  "internal m = ApiError m 500 ''INTERNAL_ERROR''"

text \<open>The non-ASCII letters of the messages, as their UTF-8 bytes.\<close>

definition a_tilde :: string where "a_tilde = [CHR 0xC3, CHR 0xA3]"
definition a_acute :: string where "a_acute = [CHR 0xC3, CHR 0xA1]"
definition c_cedilla :: string where "c_cedilla = [CHR 0xC3, CHR 0xA7]"
definition u_acute :: string where "u_acute = [CHR 0xC3, CHR 0xBA]"

section \<open>The platform\<close>

text \<open>
  Functions of the JavaScript runtime that the services call and that are not code of the
  repository are parameters of the model:
  \<^item> \<open>JSON_parse d\<close> is \<open>JSON.parse(d) as Product[]\<close>, \<open>None\<close> when it throws (the cast is
    not checked at run time; documents that parse to something else than an array of
    products are outside the model);
  \<^item> \<open>JSON_stringify ps\<close> is \<open>JSON.stringify(ps, null, 2)\<close>;
  \<^item> \<open>toLowerCase\<close> and \<open>localeCompare\<close> are the methods of \<open>String\<close>;
  \<^item> \<open>getTime t\<close> is \<open>new Date(t).getTime()\<close>, for timestamps that are dates;
  \<^item> \<open>toISOString ms\<close> is \<open>new Date(ms).toISOString()\<close>.
\<close>

record platform =
  JSON_parse :: "string \<Rightarrow> product list option"
  JSON_stringify :: "product list \<Rightarrow> string"
  toLowerCase :: "string \<Rightarrow> string"
  localeCompare :: "string \<Rightarrow> string \<Rightarrow> int"
  getTime :: "string \<Rightarrow> int"
  toISOString :: "int \<Rightarrow> string"

section \<open>The state: files, the DataService instance and the JavaScript heap\<close>

text \<open>
  \<open>primary\<close> and \<open>backup\<close> are the contents of \<open>data/products.json\<close> and
  \<open>data/products.backup.json\<close>, \<open>None\<close> when the file does not exist. \<open>fs.access\<close> and
  \<open>fs.readFile\<close> succeed exactly on an existing file; \<open>fs.copyFile\<close> and \<open>fs.writeFile\<close>
  succeed exactly when the store is \<open>writable\<close>.

  Arrays and objects are references into a heap: \<open>arrays\<close> maps the reference of an array
  to the references of its elements, \<open>objects\<close> maps the reference of a product object to
  its fields, and \<open>fresh\<close> is the next unused reference. \<open>cache\<close> is the field
  \<open>this.cache\<close>: \<open>null\<close> or the reference of an array.
\<close>

type_synonym ref = nat

record state =
  primary :: "string option"
  backup :: "string option"
  writable :: bool
  cache :: "ref option"
  cacheTimestamp :: int
  arrays :: "ref \<Rightarrow> ref list"
  objects :: "ref \<Rightarrow> product"
  fresh :: ref

text \<open>
  An asynchronous method is a function of the state that returns a value or throws, and
  the state it leaves behind in both cases. \<open>await m f\<close> runs \<open>m\<close> and then \<open>f\<close> on its
  value; an exception of \<open>m\<close> propagates.
\<close>

type_synonym 'a io = "state \<Rightarrow> (ApiError + 'a) \<times> state"

definition await :: "'a io \<Rightarrow> ('a \<Rightarrow> 'b io) \<Rightarrow> 'b io" where
  "await m f s = (case m s of (Inl e, s1) \<Rightarrow> (Inl e, s1) | (Inr x, s1) \<Rightarrow> f x s1)"

definition newArray :: "ref list \<Rightarrow> state \<Rightarrow> ref \<times> state" where
  "newArray xs s = (fresh s, s\<lparr>arrays := (arrays s)(fresh s := xs), fresh := Suc (fresh s)\<rparr>)"

definition newObject :: "product \<Rightarrow> state \<Rightarrow> ref \<times> state" where
  "newObject p s = (fresh s, s\<lparr>objects := (objects s)(fresh s := p), fresh := Suc (fresh s)\<rparr>)"

fun newObjects :: "product list \<Rightarrow> state \<Rightarrow> ref list \<times> state" where
  "newObjects [] s = ([], s)"
| "newObjects (p # ps) s =
     (case newObject p s of (r, s1) \<Rightarrow>
        (case newObjects ps s1 of (rs, s2) \<Rightarrow> (r # rs, s2)))"

text \<open>The products an array holds, in order.\<close>

definition products_of :: "state \<Rightarrow> ref \<Rightarrow> product list" where
  "products_of s a = map (objects s) (arrays s a)"

section \<open>DataService\<close>

definition cacheTimeout :: int where
  "cacheTimeout = 5 * 60 * 1000"

text \<open>\<open>now\<close> is the value of \<open>Date.now()\<close> while the operation runs.\<close>

definition isCacheValid :: "int \<Rightarrow> state \<Rightarrow> bool" where
  "isCacheValid now s \<longleftrightarrow> cache s \<noteq> None \<and> now - cacheTimestamp s < cacheTimeout"

text \<open>
  \<open>writeToFile\<close>: copy the primary file to the backup if it exists (a failure of the copy is
  swallowed), write the serialised collection, then set the cache to a new array
  \<open>[...products]\<close> with the same elements.
\<close>

definition writeToFile :: "platform \<Rightarrow> int \<Rightarrow> ref \<Rightarrow> unit io" where
  "writeToFile P now products s =
     (let s1 = (case primary s of
                  Some d \<Rightarrow> if writable s then s\<lparr>backup := Some d\<rparr> else s
                | None \<Rightarrow> s)
      in if writable s1
         then (let dataString = JSON_stringify P (products_of s1 products);
                   s2 = s1\<lparr>primary := Some dataString\<rparr>
               in case newArray (arrays s2 products) s2 of
                    (c, s3) \<Rightarrow> (Inr (), s3\<lparr>cache := Some c, cacheTimestamp := now\<rparr>))
         else (Inl (internal ''Falha ao salvar dados''), s1))"

definition initializeEmptyData :: "platform \<Rightarrow> int \<Rightarrow> ref io" where
  "initializeEmptyData P now s =
     (case newArray [] s of
        (emptyData, s1) \<Rightarrow> await (writeToFile P now emptyData) (\<lambda>_ s2. (Inr emptyData, s2)) s1)"

text \<open>
  \<open>recoverFromBackup\<close>: the whole body is inside \<open>try\<close>, so a missing backup, a backup that
  does not parse and a failed \<open>writeToFile\<close> all end in \<open>initializeEmptyData\<close>.
\<close>

definition recoverFromBackup :: "platform \<Rightarrow> int \<Rightarrow> ref io" where
  "recoverFromBackup P now s =
     (case backup s of
        None \<Rightarrow> initializeEmptyData P now s
      | Some backupData \<Rightarrow>
          (case JSON_parse P backupData of
             None \<Rightarrow> initializeEmptyData P now s
           | Some ps \<Rightarrow>
               (case newObjects ps s of (rs, s1) \<Rightarrow>
                 (case newArray rs s1 of (products, s2) \<Rightarrow>
                   (case writeToFile P now products s2 of
                      (Inl e, s3) \<Rightarrow> initializeEmptyData P now s3
                    | (Inr _, s3) \<Rightarrow> (Inr products, s3))))))"

text \<open>
  \<open>readFromFile\<close>: a missing file (\<open>ENOENT\<close>) initialises an empty collection; a file that
  does not parse goes to \<open>recoverFromBackup\<close>; otherwise the parsed array becomes the cache
  and is returned (the same array, not a copy).
\<close>

definition readFromFile :: "platform \<Rightarrow> int \<Rightarrow> ref io" where
  "readFromFile P now s =
     (case primary s of
        None \<Rightarrow> initializeEmptyData P now s
      | Some data \<Rightarrow>
          (case JSON_parse P data of
             None \<Rightarrow> recoverFromBackup P now s
           | Some ps \<Rightarrow>
               (case newObjects ps s of (rs, s1) \<Rightarrow>
                 (case newArray rs s1 of (products, s2) \<Rightarrow>
                   (Inr products, s2\<lparr>cache := Some products, cacheTimestamp := now\<rparr>)))))"

definition getAllProducts :: "platform \<Rightarrow> int \<Rightarrow> ref io" where
  "getAllProducts P now s =
     (if isCacheValid now s
      then (case newArray (arrays s (the (cache s))) s of (c, s1) \<Rightarrow> (Inr c, s1))
      else readFromFile P now s)"

definition clearCache :: "state \<Rightarrow> state" where
  "clearCache s = s\<lparr>cache := None, cacheTimestamp := 0\<rparr>"

subsection \<open>Array and string methods of the runtime\<close>

text \<open>\<open>Array.prototype.findIndex\<close>: the first index whose element satisfies the test, or \<open>-1\<close>.\<close>

fun findIndex :: "('a \<Rightarrow> bool) \<Rightarrow> 'a list \<Rightarrow> int" where
  "findIndex t [] = -1"
| "findIndex t (x # xs) =
     (if t x then 0 else (let i = findIndex t xs in if i = -1 then -1 else i + 1))"

text \<open>\<open>String.prototype.includes\<close>: the argument occurs as a contiguous substring.\<close>

fun String_includes :: "string \<Rightarrow> string \<Rightarrow> bool" where
  "String_includes [] q = (q = [])"
| "String_includes (c # cs) q = (take (length q) (c # cs) = q \<or> String_includes cs q)"

text \<open>
  \<open>Array.prototype.slice(start, stop)\<close> on integer arguments: a negative index counts from
  the end, both indices are clamped to the array, and an empty range gives an empty array.
\<close>

definition relativeIndex :: "int \<Rightarrow> int \<Rightarrow> int" where
  "relativeIndex len k = (if k < 0 then max (len + k) 0 else min k len)"

definition slice :: "int \<Rightarrow> int \<Rightarrow> 'a list \<Rightarrow> 'a list" where
  "slice start stop xs =
     (let len = int (length xs);
          from = relativeIndex len start;
          final = relativeIndex len stop
      in take (nat (max (final - from) 0)) (drop (nat from) xs))"

text \<open>
  \<open>Array.prototype.sort(compare)\<close> is a stable sort: \<open>x\<close> stays before \<open>y\<close> unless
  \<open>compare(x, y) > 0\<close>. It is modelled as a stable insertion sort.
\<close>

fun insertBy :: "('a \<Rightarrow> 'a \<Rightarrow> rat) \<Rightarrow> 'a \<Rightarrow> 'a list \<Rightarrow> 'a list" where
  "insertBy cmp x [] = [x]"
| "insertBy cmp x (y # ys) = (if cmp x y \<le> 0 then x # y # ys else y # insertBy cmp x ys)"

definition sortBy :: "('a \<Rightarrow> 'a \<Rightarrow> rat) \<Rightarrow> 'a list \<Rightarrow> 'a list" where
  "sortBy cmp xs = foldr (insertBy cmp) xs []"

definition Number_isInteger :: "rat \<Rightarrow> bool" where
  "Number_isInteger x \<longleftrightarrow> of_int \<lfloor>x\<rfloor> = x"

subsection \<open>Arithmetic of the runtime\<close>

text \<open>
  A JavaScript number is a binary64 floating-point number. A \<open>rat\<close> stands for the value
  of a finite number, and the result of an arithmetic operation is a \<open>number\<close>: the exact
  result rounded to the nearest binary64 number, ties to the even significand, and an
  infinity when the rounded result reaches \<open>2\<^sup>1\<^sup>0\<^sup>2\<^sup>4\<close>. The zero \<open>-0\<close> is not
  told apart from \<open>0\<close> (\<open>-0 === 0\<close>). The right operand of the operations below is a finite
  number at every call (a price, \<open>products.length\<close>, \<open>100\<close>), so \<open>NaN\<close> does not arise.

  \<open>binade x\<close> is the exponent \<open>e\<close> with \<open>2\<^sup>e \<le> |x| < 2\<^sup>e\<^sup>+\<^sup>1\<close>; binary64 numbers of this
  binade, with the exponent not below \<open>-1022\<close>, are the multiples of \<open>2\<^sup>e\<^sup>-\<^sup>5\<^sup>2\<close>.
\<close>

datatype number = Finite rat | PosInfinity | NegInfinity

definition binade :: "rat \<Rightarrow> int" where
  "binade x =
     (case quotient_of \<bar>x\<bar> of
        (a, b) \<Rightarrow> (let d = bitlen a - bitlen b in if 2 powi d \<le> \<bar>x\<bar> then d else d - 1))"

definition roundTiesToEven :: "rat \<Rightarrow> int" where
  "roundTiesToEven y =
     (let f = \<lfloor>y\<rfloor>; d = y - of_int f
      in if d < 1 / 2 then f else if 1 / 2 < d then f + 1 else if even f then f else f + 1)"

definition toNumber :: "rat \<Rightarrow> number" where
  "toNumber x =
     (if x = 0 then Finite 0
      else (let q = 2 powi (max (binade x) (- 1022) - 52);
                r = q * of_int (roundTiesToEven (x / q))
            in if 2 powi 1024 \<le> \<bar>r\<bar>
               then (if 0 < x then PosInfinity else NegInfinity)
               else Finite r))"

text \<open>\<open>x + y\<close>, \<open>x * y\<close> and \<open>x / y\<close> for a finite \<open>y\<close> (\<open>y \<noteq> 0\<close> in the last two).\<close>

fun Number_plus :: "number \<Rightarrow> rat \<Rightarrow> number" where
  "Number_plus (Finite x) y = toNumber (x + y)"
| "Number_plus PosInfinity y = PosInfinity"
| "Number_plus NegInfinity y = NegInfinity"

fun Number_times :: "number \<Rightarrow> rat \<Rightarrow> number" where
  "Number_times (Finite x) y = toNumber (x * y)"
| "Number_times PosInfinity y = (if 0 < y then PosInfinity else NegInfinity)"
| "Number_times NegInfinity y = (if 0 < y then NegInfinity else PosInfinity)"

fun Number_divide :: "number \<Rightarrow> rat \<Rightarrow> number" where
  "Number_divide (Finite x) y = toNumber (x / y)"
| "Number_divide PosInfinity y = (if 0 < y then PosInfinity else NegInfinity)"
| "Number_divide NegInfinity y = (if 0 < y then NegInfinity else PosInfinity)"

text \<open>
  \<open>Math.round\<close>: the nearest integer, a half rounded up; it is exact on binary64 numbers.
\<close>

fun Math_round :: "number \<Rightarrow> number" where
  "Math_round (Finite x) = Finite (of_int \<lfloor>x + 1 / 2\<rfloor>)"
| "Math_round PosInfinity = PosInfinity"
| "Math_round NegInfinity = NegInfinity"

subsection \<open>CRUD\<close>

definition DataService_getProductById :: "platform \<Rightarrow> int \<Rightarrow> string \<Rightarrow> ref option io" where
  "DataService_getProductById P now i =
     await (getAllProducts P now)
       (\<lambda>products s. (Inr (find (\<lambda>product. idp (objects s product) = i) (arrays s products)), s))"

definition DataService_createProduct :: "platform \<Rightarrow> int \<Rightarrow> ref \<Rightarrow> ref io" where
  "DataService_createProduct P now product =
     await (getAllProducts P now)
       (\<lambda>products s.
          case find (\<lambda>p. idp (objects s p) = idp (objects s product)) (arrays s products) of
            Some existingProduct \<Rightarrow>
              (Inl (conflict (''Produto com este ID j'' @ a_acute @ '' existe'')), s)
          | None \<Rightarrow>
              await (writeToFile P now products) (\<lambda>_ s2. (Inr product, s2))
                (s\<lparr>arrays := (arrays s)(products := arrays s products @ [product])\<rparr>))"

text \<open>
  The merge \<open>{...products[productIndex], ...updates, id, updatedAt: new Date().toISOString()}\<close>.
\<close>

definition merge :: "product \<Rightarrow> PartialProduct \<Rightarrow> string \<Rightarrow> string \<Rightarrow> product" where
  "merge p u i stamp =
     \<lparr> idp = i,
       name = (case name_p u of Some v \<Rightarrow> v | None \<Rightarrow> name p),
       description = (case description_p u of Some v \<Rightarrow> v | None \<Rightarrow> description p),
       price = (case price_p u of Some v \<Rightarrow> v | None \<Rightarrow> price p),
       category = (case category_p u of Some v \<Rightarrow> v | None \<Rightarrow> category p),
       stock = (case stock_p u of Some v \<Rightarrow> v | None \<Rightarrow> stock p),
       imageUrl = (case imageUrl_p u of Some v \<Rightarrow> Some v | None \<Rightarrow> imageUrl p),
       tags = (case tags_p u of Some v \<Rightarrow> Some v | None \<Rightarrow> tags p),
       isActive = (case isActive_p u of Some v \<Rightarrow> v | None \<Rightarrow> isActive p),
       createdAt = (case createdAt_p u of Some v \<Rightarrow> v | None \<Rightarrow> createdAt p),
       updatedAt = stamp \<rparr>"

definition DataService_updateProduct ::
  "platform \<Rightarrow> int \<Rightarrow> string \<Rightarrow> PartialProduct \<Rightarrow> ref io" where
  "DataService_updateProduct P now i updates =
     await (getAllProducts P now)
       (\<lambda>products s.
          let productIndex = findIndex (\<lambda>p. idp (objects s p) = i) (arrays s products)
          in if productIndex = -1
             then (Inl (notFound (''Produto n'' @ a_tilde @ ''o encontrado'')), s)
             else
               (case newObject
                       (merge (objects s (arrays s products ! nat productIndex)) updates i
                          (toISOString P now)) s of
                  (updatedProduct, s1) \<Rightarrow>
                    await (writeToFile P now products) (\<lambda>_ s3. (Inr updatedProduct, s3))
                      (s1\<lparr>arrays := (arrays s1)
                            (products := (arrays s1 products)[nat productIndex := updatedProduct])\<rparr>)))"

definition DataService_deleteProduct :: "platform \<Rightarrow> int \<Rightarrow> string \<Rightarrow> unit io" where
  "DataService_deleteProduct P now i =
     await (getAllProducts P now)
       (\<lambda>products s.
          let productIndex = findIndex (\<lambda>p. idp (objects s p) = i) (arrays s products)
          in if productIndex = -1
             then (Inl (notFound (''Produto n'' @ a_tilde @ ''o encontrado'')), s)
             else
               writeToFile P now products
                 (s\<lparr>arrays := (arrays s)
                       (products := take (nat productIndex) (arrays s products)
                                    @ drop (nat productIndex + 1) (arrays s products))\<rparr>))"

subsection \<open>Search\<close>

datatype sortKey = SortName | SortPrice | SortCreatedAt

datatype sortDirection = Asc | Desc

record filters =
  search_f :: "string option"
  category_f :: "string option"
  isActive_f :: "bool option"
  sortBy_f :: "sortKey option"
  sortOrder_f :: "sortDirection option"
  page_f :: "int option"
  limit_f :: "int option"

text \<open>The test of the text filter; \<open>product.tags?.some(...)\<close> is falsy without tags.\<close>

definition matchesSearch :: "platform \<Rightarrow> string \<Rightarrow> product \<Rightarrow> bool" where
  "matchesSearch P searchLower product \<longleftrightarrow>
     String_includes (toLowerCase P (name product)) searchLower \<or>
     String_includes (toLowerCase P (description product)) searchLower \<or>
     (case tags product of
        None \<Rightarrow> False
      | Some ts \<Rightarrow> list_ex (\<lambda>tag. String_includes (toLowerCase P tag) searchLower) ts)"

text \<open>The comparison function given to \<open>sort\<close>.\<close>

definition compareProducts ::
  "platform \<Rightarrow> sortKey \<Rightarrow> sortDirection option \<Rightarrow> product \<Rightarrow> product \<Rightarrow> rat" where
  "compareProducts P field order a b =
     (let comparison =
            (case field of
               SortName \<Rightarrow> of_int (localeCompare P (name a) (name b))
             | SortPrice \<Rightarrow> price a - price b
             | SortCreatedAt \<Rightarrow> of_int (getTime P (createdAt a) - getTime P (createdAt b)))
      in if order = Some Desc then - comparison else comparison)"

text \<open>
  The three filters. \<open>filter\<close> returns a new array; a filter that is absent (or an empty
  string, which is falsy) leaves the variable \<open>products\<close> pointing to the same array.
\<close>

definition filterSearch :: "platform \<Rightarrow> filters \<Rightarrow> ref \<Rightarrow> state \<Rightarrow> ref \<times> state" where
  "filterSearch P f products s =
     (case search_f f of
        None \<Rightarrow> (products, s)
      | Some q \<Rightarrow>
          if q = [] then (products, s)
          else newArray
                 (filter (\<lambda>product. matchesSearch P (toLowerCase P q) (objects s product))
                    (arrays s products)) s)"

definition filterCategory :: "platform \<Rightarrow> filters \<Rightarrow> ref \<Rightarrow> state \<Rightarrow> ref \<times> state" where
  "filterCategory P f products s =
     (case category_f f of
        None \<Rightarrow> (products, s)
      | Some c \<Rightarrow>
          if c = [] then (products, s)
          else newArray
                 (filter (\<lambda>product. toLowerCase P (category (objects s product)) = toLowerCase P c)
                    (arrays s products)) s)"

definition filterActive :: "filters \<Rightarrow> ref \<Rightarrow> state \<Rightarrow> ref \<times> state" where
  "filterActive f products s =
     (case isActive_f f of
        None \<Rightarrow> (products, s)
      | Some b \<Rightarrow>
          newArray (filter (\<lambda>product. isActive (objects s product) = b) (arrays s products)) s)"

text \<open>\<open>products.sort(...)\<close> sorts the array in place.\<close>

definition sortProducts :: "platform \<Rightarrow> filters \<Rightarrow> ref \<Rightarrow> state \<Rightarrow> state" where
  "sortProducts P f products s =
     (case sortBy_f f of
        None \<Rightarrow> s
      | Some field \<Rightarrow>
          s\<lparr>arrays := (arrays s)
               (products :=
                  sortBy (\<lambda>a b. compareProducts P field (sortOrder_f f) (objects s a) (objects s b))
                    (arrays s products))\<rparr>)"

text \<open>\<open>filters.page && filters.limit\<close>: both present and neither \<open>0\<close>.\<close>

definition paginate :: "filters \<Rightarrow> ref \<Rightarrow> state \<Rightarrow> ref \<times> state" where
  "paginate f products s =
     (case (page_f f, limit_f f) of
        (Some page, Some limit) \<Rightarrow>
          if page \<noteq> 0 \<and> limit \<noteq> 0
          then (let startIndex = (page - 1) * limit
                in newArray (slice startIndex (startIndex + limit) (arrays s products)) s)
          else (products, s)
      | _ \<Rightarrow> (products, s))"

definition searchProducts :: "platform \<Rightarrow> int \<Rightarrow> filters \<Rightarrow> (ref \<times> int) io" where
  "searchProducts P now f =
     await (getAllProducts P now)
       (\<lambda>products0 s0.
          case filterSearch P f products0 s0 of (products1, s1) \<Rightarrow>
          case filterCategory P f products1 s1 of (products2, s2) \<Rightarrow>
          case filterActive f products2 s2 of (products3, s3) \<Rightarrow>
            (let s4 = sortProducts P f products3 s3;
                 total = int (length (arrays s4 products3))
             in case paginate f products3 s4 of (products4, s5) \<Rightarrow>
                  (Inr (products4, total), s5)))"

subsection \<open>Statistics\<close>

text \<open>
  The object \<open>getStatistics\<close> returns also has a counter \<open>categories\<close>, filled by a \<open>forEach\<close>
  that neither reads nor writes the other fields; it is left out here.
\<close>

record statistics =
  total :: nat
  active :: nat
  inactive :: nat
  averagePrice :: number

definition computeStatistics :: "product list \<Rightarrow> statistics" where
  "computeStatistics products =
     \<lparr> total = length products,
       active = length (filter (\<lambda>p. isActive p) products),
       inactive = length (filter (\<lambda>p. \<not> isActive p) products),
       averagePrice =
         (if length products > 0
          then (let totalPrice =
                      foldl (\<lambda>sum product. Number_plus sum (price product)) (Finite 0) products
                in Number_divide
                     (Math_round
                        (Number_times (Number_divide totalPrice (of_nat (length products))) 100))
                     100)
          else Finite 0) \<rparr>"

definition getStatistics :: "platform \<Rightarrow> int \<Rightarrow> statistics io" where
  "getStatistics P now =
     await (getAllProducts P now) (\<lambda>products s. (Inr (computeStatistics (products_of s products)), s))"

section \<open>ProductService\<close>

definition ProductService_getProductById :: "platform \<Rightarrow> int \<Rightarrow> string \<Rightarrow> ref io" where
  "ProductService_getProductById P now i =
     await (DataService_getProductById P now i)
       (\<lambda>product s.
          case product of
            None \<Rightarrow> (Inl (notFound (''Produto com ID '' @ i @ '' n'' @ a_tilde @ ''o encontrado'')), s)
          | Some p \<Rightarrow> (Inr p, s))"

text \<open>
  \<open>excludeId\<close> is \<open>undefined\<close> on create, and \<open>p.id !== undefined\<close> holds for every product.
\<close>

definition validateProductName :: "platform \<Rightarrow> int \<Rightarrow> string \<Rightarrow> string option \<Rightarrow> unit io" where
  "validateProductName P now n excludeId =
     await (getAllProducts P now)
       (\<lambda>allProducts s.
          case find (\<lambda>p. toLowerCase P (name (objects s p)) = toLowerCase P n
                          \<and> Some (idp (objects s p)) \<noteq> excludeId) (arrays s allProducts) of
            Some duplicateName \<Rightarrow>
              (Inl (conflict (''J'' @ a_acute @ '' existe um produto com este nome'')), s)
          | None \<Rightarrow> (Inr (), s))"

definition validateProductPrice :: "rat \<Rightarrow> unit io" where
  "validateProductPrice p s =
     (if p \<le> 0 then (Inl (badRequest (''Pre'' @ c_cedilla @ ''o deve ser maior que zero'')), s)
      else if p > 99999999 / 100
      then (Inl (badRequest (''Pre'' @ c_cedilla @ ''o n'' @ a_tilde @ ''o pode exceder R$ 999.999,99'')), s)
      else (Inr (), s))"

definition validateProductStock :: "rat \<Rightarrow> unit io" where
  "validateProductStock n s =
     (if n < 0 then (Inl (badRequest (''Estoque n'' @ a_tilde @ ''o pode ser negativo'')), s)
      else if \<not> Number_isInteger n
      then (Inl (badRequest (''Estoque deve ser um n'' @ u_acute @ ''mero inteiro'')), s)
      else (Inr (), s))"

text \<open>
  \<open>createProduct\<close>: \<open>uuid\<close> is the value \<open>randomUUID()\<close> returns and \<open>toISOString P now\<close> the
  value of \<open>new Date().toISOString()\<close>.
\<close>

definition buildProduct :: "string \<Rightarrow> CreateProduct \<Rightarrow> string \<Rightarrow> product" where
  "buildProduct uuid productData stamp =
     \<lparr> idp = uuid,
       name = name_c productData,
       description = description_c productData,
       price = price_c productData,
       category = category_c productData,
       stock = stock_c productData,
       imageUrl = imageUrl_c productData,
       tags = Some (case tags_c productData of Some ts \<Rightarrow> ts | None \<Rightarrow> []),
       isActive = (case isActive_c productData of Some b \<Rightarrow> b | None \<Rightarrow> True),
       createdAt = stamp,
       updatedAt = stamp \<rparr>"

definition ProductService_createProduct ::
  "platform \<Rightarrow> int \<Rightarrow> string \<Rightarrow> CreateProduct \<Rightarrow> ref io" where
  "ProductService_createProduct P now uuid productData =
     await (validateProductName P now (name_c productData) None) (\<lambda>_.
     await (validateProductPrice (price_c productData)) (\<lambda>_.
     await (validateProductStock (stock_c productData)) (\<lambda>_ s.
       case newObject (buildProduct uuid productData (toISOString P now)) s of
         (product, s1) \<Rightarrow>
           await (DataService_createProduct P now product)
             (\<lambda>createdProduct s2. (Inr createdProduct, s2)) s1)))"

text \<open>The object \<open>{...updates, updatedAt: new Date().toISOString()}\<close>.\<close>

definition withUpdatedAt :: "UpdateProduct \<Rightarrow> string \<Rightarrow> PartialProduct" where
  "withUpdatedAt updates stamp =
     \<lparr> id_p = None,
       name_p = name_u updates,
       description_p = description_u updates,
       price_p = price_u updates,
       category_p = category_u updates,
       stock_p = stock_u updates,
       imageUrl_p = imageUrl_u updates,
       tags_p = tags_u updates,
       isActive_p = isActive_u updates,
       createdAt_p = None,
       updatedAt_p = Some stamp \<rparr>"

definition whenDefined :: "'a option \<Rightarrow> ('a \<Rightarrow> unit io) \<Rightarrow> unit io" where
  "whenDefined v check s = (case v of None \<Rightarrow> (Inr (), s) | Some x \<Rightarrow> check x s)"

definition ProductService_updateProduct ::
  "platform \<Rightarrow> int \<Rightarrow> string \<Rightarrow> UpdateProduct \<Rightarrow> ref io" where
  "ProductService_updateProduct P now i updates =
     await (ProductService_getProductById P now i) (\<lambda>_.
     await (whenDefined (name_u updates) (\<lambda>n. validateProductName P now n (Some i))) (\<lambda>_.
     await (whenDefined (price_u updates) validateProductPrice) (\<lambda>_.
     await (whenDefined (stock_u updates) validateProductStock) (\<lambda>_.
     await (DataService_updateProduct P now i (withUpdatedAt updates (toISOString P now)))
       (\<lambda>updatedProduct s. (Inr updatedProduct, s))))))"

datatype operation = Add | Subtract

text \<open>The object \<open>{ stock: newStock }\<close>.\<close>

definition stockOnly :: "rat \<Rightarrow> UpdateProduct" where
  "stockOnly newStock =
     \<lparr> name_u = None, description_u = None, price_u = None, category_u = None,
       stock_u = Some newStock, imageUrl_u = None, tags_u = None, isActive_u = None \<rparr>"

text \<open>
  \<open>updateProductStock\<close>: the \<open>if\<close> computes \<open>newStock\<close> or throws, before \<open>updateProduct\<close>
  is called.
\<close>

definition updateProductStock ::
  "platform \<Rightarrow> int \<Rightarrow> string \<Rightarrow> rat \<Rightarrow> operation \<Rightarrow> ref io" where
  "updateProductStock P now i quantity op =
     await (ProductService_getProductById P now i)
       (\<lambda>product s.
          case (case op of
                  Add \<Rightarrow> Inr (stock (objects s product) + quantity)
                | Subtract \<Rightarrow>
                    (let newStock = stock (objects s product) - quantity
                     in if newStock < 0
                        then Inl (badRequest (''Estoque n'' @ a_tilde @ ''o pode ficar negativo''))
                        else Inr newStock)) of
            Inl e \<Rightarrow> (Inl e, s)
          | Inr newStock \<Rightarrow>
              await (ProductService_updateProduct P now i (stockOnly newStock))
                (\<lambda>updatedProduct s1. (Inr updatedProduct, s1)) s)"

section \<open>Notions used in the statements\<close>

text \<open>
  A heap is well formed when the cache, if there is one, and the elements of the cached
  array are allocated references.
\<close>

definition wf_heap :: "state \<Rightarrow> bool" where
  "wf_heap s \<longleftrightarrow>
     (case cache s of
        None \<Rightarrow> True
      | Some c \<Rightarrow> c < fresh s \<and> list_all (\<lambda>r. r < fresh s) (arrays s c))"

text \<open>The objects of the heap after \<open>newObjects ps\<close>.\<close>

definition objectsAfter :: "product list \<Rightarrow> state \<Rightarrow> ref \<Rightarrow> product" where
  "objectsAfter ps s r =
     (if fresh s \<le> r \<and> r < fresh s + length ps then ps ! (r - fresh s) else objects s r)"

text \<open>
  The search filters as the specification words them: a record is kept when it passes the
  text filter, the category filter and the active-status filter, each only if given.
\<close>

definition passesFilters :: "platform \<Rightarrow> filters \<Rightarrow> product \<Rightarrow> bool" where
  "passesFilters P f p \<longleftrightarrow>
     (case search_f f of
        None \<Rightarrow> True
      | Some q \<Rightarrow> q = [] \<or> matchesSearch P (toLowerCase P q) p) \<and>
     (case category_f f of
        None \<Rightarrow> True
      | Some c \<Rightarrow> c = [] \<or> toLowerCase P (category p) = toLowerCase P c) \<and>
     (case isActive_f f of None \<Rightarrow> True | Some b \<Rightarrow> isActive p = b)"

text \<open>The elements of an array whose records pass the filters.\<close>

definition selected :: "platform \<Rightarrow> filters \<Rightarrow> state \<Rightarrow> ref \<Rightarrow> ref list" where
  "selected P f s a = filter (\<lambda>r. passesFilters P f (objects s r)) (arrays s a)"

text \<open>The requested order of a sequence of references, if a sort key is given.\<close>

definition ordered :: "platform \<Rightarrow> filters \<Rightarrow> state \<Rightarrow> ref list \<Rightarrow> ref list" where
  "ordered P f s rs =
     (case sortBy_f f of
        None \<Rightarrow> rs
      | Some field \<Rightarrow>
          sortBy (\<lambda>a b. compareProducts P field (sortOrder_f f) (objects s a) (objects s b)) rs)"

text \<open>The unit roundoff of binary64 arithmetic.\<close>

definition unitRoundoff :: rat where
  "unitRoundoff = 1 / 2 ^ 53"

text \<open>The mean price of a collection, and rounding to two decimal places.\<close>

definition meanPrice :: "product list \<Rightarrow> rat" where
  "meanPrice ps = sum_list (map price ps) / of_nat (length ps)"

definition roundTo2 :: "rat \<Rightarrow> rat" where
  "roundTo2 x = of_int \<lfloor>x * 100 + 1 / 2\<rfloor> / 100"

text \<open>
  What a caller can do with a returned array or record: assign the contents of the array
  (\<open>push\<close>, \<open>splice\<close>, an indexed assignment), or assign the \<open>stock\<close> of a record.
\<close>

definition callerAssigns :: "ref \<Rightarrow> ref list \<Rightarrow> state \<Rightarrow> state" where
  "callerAssigns a xs s = s\<lparr>arrays := (arrays s)(a := xs)\<rparr>"

definition callerSetsStock :: "ref \<Rightarrow> rat \<Rightarrow> state \<Rightarrow> state" where
  "callerSetsStock r v s = s\<lparr>objects := (objects s)(r := (objects s r)\<lparr>stock := v\<rparr>)\<rparr>"

text \<open>The products a read returns (\<open>[]\<close> if it throws).\<close>

definition readProducts :: "platform \<Rightarrow> int \<Rightarrow> state \<Rightarrow> product list" where
  "readProducts P now s =
     (case getAllProducts P now s of (Inr a, s1) \<Rightarrow> products_of s1 a | (Inl e, s1) \<Rightarrow> [])"

section \<open>Concrete instances\<close>

definition mouse :: product where
  "mouse = \<lparr> idp = ''id-1'', name = ''Mouse'', description = ''Mouse sem fio'', price = 10,
             category = ''Perifericos'', stock = 50, imageUrl = None, tags = Some [''usb''],
             isActive = True, createdAt = ''2024-01-01T00:00:00.000Z'',
             updatedAt = ''2024-01-01T00:00:00.000Z'' \<rparr>"

definition teclado :: product where
  "teclado = \<lparr> idp = ''id-2'', name = ''Teclado'', description = ''Teclado mecanico'', price = 20,
               category = ''Perifericos'', stock = 5, imageUrl = None, tags = None,
               isActive = False, createdAt = ''2024-01-02T00:00:00.000Z'',
               updatedAt = ''2024-01-02T00:00:00.000Z'' \<rparr>"

definition monitor :: product where
  "monitor = \<lparr> idp = ''id-3'', name = ''Monitor'', description = ''Monitor 27'', price = 30,
               category = ''Video'', stock = 7, imageUrl = None, tags = Some [],
               isActive = True, createdAt = ''2024-01-03T00:00:00.000Z'',
               updatedAt = ''2024-01-03T00:00:00.000Z'' \<rparr>"

text \<open>
  A small platform for the concrete instances: it parses and prints two documents only,
  lowers ASCII letters, and its clock prints one instant.
\<close>

definition asciiLower :: "char \<Rightarrow> char" where
  "asciiLower c =
     (case map_of (zip ''ABCDEFGHIJKLMNOPQRSTUVWXYZ'' ''abcdefghijklmnopqrstuvwxyz'') c of
        Some l \<Rightarrow> l
      | None \<Rightarrow> c)"

definition testPlatform :: platform where
  "testPlatform =
     \<lparr> JSON_parse = (\<lambda>d. if d = ''[mouse,teclado]'' then Some [mouse, teclado]
                          else if d = ''[]'' then Some [] else None),
       JSON_stringify = (\<lambda>ps. if ps = [mouse, teclado] then ''[mouse,teclado]''
                              else if ps = [] then ''[]'' else ''[...]''),
       toLowerCase = map asciiLower,
       localeCompare = (\<lambda>a b. 0),
       getTime = (\<lambda>t. 0),
       toISOString = (\<lambda>ms. ''2024-06-01T12:00:00.000Z'') \<rparr>"

text \<open>A corrupted primary file beside a valid backup, and no cache.\<close>

definition corruptedStore :: state where
  "corruptedStore =
     \<lparr> primary = Some ''[{broken'', backup = Some ''[mouse,teclado]'', writable = True,
       cache = None, cacheTimestamp = 0, arrays = (\<lambda>_. []), objects = (\<lambda>_. mouse),
       fresh = 0 \<rparr>"

text \<open>A store whose cache (array \<open>0\<close>) holds the two products of the primary file.\<close>

definition cachedStore :: state where
  "cachedStore =
     \<lparr> primary = Some ''[mouse,teclado]'', backup = None, writable = True,
       cache = Some 0, cacheTimestamp = 0, arrays = (\<lambda>_. [])(0 := [1, 2]),
       objects = (\<lambda>_. mouse)(2 := teclado), fresh = 3 \<rparr>"

text \<open>A store whose cache holds twelve products, \<open>item 1\<close> to \<open>item 12\<close>.\<close>

definition item :: "nat \<Rightarrow> product" where
  "item n = mouse\<lparr>stock := of_nat n\<rparr>"

definition twelveStore :: state where
  "twelveStore =
     \<lparr> primary = None, backup = None, writable = True,
       cache = Some 0, cacheTimestamp = 0,
       arrays = (\<lambda>_. [])(0 := [1, 2, 3, 4, 5, 6, 7, 8, 9, 10, 11, 12]),
       objects = item, fresh = 13 \<rparr>"

text \<open>\<open>cachedStore\<close> after one read at time \<open>1000\<close>: the read allocated array \<open>3\<close>.\<close>

definition cachedStoreRead :: state where
  "cachedStoreRead = cachedStore\<lparr>arrays := (arrays cachedStore)(3 := [1, 2]), fresh := 4\<rparr>"

text \<open>A create request and an update of the name alone.\<close>

definition createNamed :: "string \<Rightarrow> CreateProduct" where
  "createNamed n =
     \<lparr> name_c = n, description_c = ''Novo produto'', price_c = 199.99, category_c = ''Teste'',
       stock_c = 15, imageUrl_c = None, tags_c = None, isActive_c = None \<rparr>"

definition nameOnly :: "string \<Rightarrow> UpdateProduct" where
  "nameOnly n =
     \<lparr> name_u = Some n, description_u = None, price_u = None, category_u = None,
       stock_u = None, imageUrl_u = None, tags_u = None, isActive_u = None \<rparr>"

text \<open>\<open>twelveStore\<close> after one read at time \<open>1000\<close>: the read allocated array \<open>13\<close>.\<close>

definition twelveStoreRead :: state where
  "twelveStoreRead =
     twelveStore\<lparr>arrays := (arrays twelveStore)(13 := [1, 2, 3, 4, 5, 6, 7, 8, 9, 10, 11, 12]),
                  fresh := 14\<rparr>"

text \<open>
  A store whose cache holds three products priced 10, 20 and 30, the last one inactive,
  and a store whose cache holds no product; each with its state after one read at time
  \<open>1000\<close>.
\<close>

definition threeStore :: state where
  "threeStore =
     \<lparr> primary = None, backup = None, writable = True,
       cache = Some 0, cacheTimestamp = 0, arrays = (\<lambda>_. [])(0 := [1, 2, 3]),
       objects = (\<lambda>_. mouse)(2 := teclado\<lparr>isActive := True\<rparr>, 3 := monitor\<lparr>isActive := False\<rparr>),
       fresh = 4 \<rparr>"

definition threeStoreRead :: state where
  "threeStoreRead = threeStore\<lparr>arrays := (arrays threeStore)(4 := [1, 2, 3]), fresh := 5\<rparr>"

definition emptyStore :: state where
  "emptyStore =
     \<lparr> primary = Some ''[]'', backup = None, writable = True,
       cache = Some 0, cacheTimestamp = 0, arrays = (\<lambda>_. []),
       objects = (\<lambda>_. mouse), fresh = 1 \<rparr>"

definition emptyStoreRead :: state where
  "emptyStoreRead = emptyStore\<lparr>arrays := (arrays emptyStore)(1 := []), fresh := 2\<rparr>"

text \<open>
  The binary64 number that the literal \<open>1.01\<close> denotes, and a store whose cache holds two
  products priced \<open>1\<close> and \<open>1.01\<close>, with its state after one read at time \<open>1000\<close>.
\<close>

definition onePointZeroOne :: rat where
  "onePointZeroOne = 4548635623644201 / 4503599627370496"

definition centStore :: state where
  "centStore =
     \<lparr> primary = None, backup = None, writable = True,
       cache = Some 0, cacheTimestamp = 0, arrays = (\<lambda>_. [])(0 := [1, 2]),
       objects = (\<lambda>_. mouse\<lparr>price := 1\<rparr>)(2 := teclado\<lparr>price := onePointZeroOne\<rparr>),
       fresh = 3 \<rparr>"

definition centStoreRead :: state where
  "centStoreRead = centStore\<lparr>arrays := (arrays centStore)(3 := [1, 2]), fresh := 4\<rparr>"

text \<open>A store with the two products in the primary file and no cache.\<close>

definition coldStore :: state where
  "coldStore =
     \<lparr> primary = Some ''[mouse,teclado]'', backup = None, writable = True,
       cache = None, cacheTimestamp = 0, arrays = (\<lambda>_. []), objects = (\<lambda>_. mouse),
       fresh = 0 \<rparr>"

text \<open>\<open>coldStore\<close> after one read at time \<open>1000\<close>: objects \<open>0\<close> and \<open>1\<close>, array \<open>2\<close>.\<close>

definition coldStoreRead :: state where
  "coldStoreRead =
     coldStore\<lparr>objects := (objects coldStore)(0 := mouse, 1 := teclado),
                arrays := (arrays coldStore)(2 := [0, 1]), fresh := 3,
                cache := Some 2, cacheTimestamp := 1000\<rparr>"

definition noFilters :: filters where
  "noFilters = \<lparr> search_f = None, category_f = None, isActive_f = None, sortBy_f = None,
                 sortOrder_f = None, page_f = None, limit_f = None \<rparr>"

section \<open>Properties\<close>

subsection \<open>Allocation\<close>

lemma wf_heap_iff:
  "wf_heap s \<longleftrightarrow>
     (\<forall>c. cache s = Some c \<longrightarrow> c < fresh s \<and> (\<forall>r\<in>set (arrays s c). r < fresh s))"
  by (cases "cache s") (simp_all add: wf_heap_def list_all_iff)

lemma objectsAfter_Nil: "objectsAfter [] s = objects s"
  by (rule ext) (auto simp: objectsAfter_def)

lemma objectsAfter_Cons: "objectsAfter ps (snd (newObject p s)) = objectsAfter (p # ps) s"
  by (rule ext) (auto simp: objectsAfter_def newObject_def nth_Cons')

lemma newObjects_closed:
  "newObjects ps s =
     ([fresh s..<fresh s + length ps],
      s\<lparr>objects := objectsAfter ps s, fresh := fresh s + length ps\<rparr>)"
proof (induction ps arbitrary: s)
  case Nil
  show ?case by (simp add: objectsAfter_Nil)
next
  case (Cons p ps)
  from objectsAfter_Cons [of ps p s] show ?case
    by (simp add: Cons.IH newObject_def upt_rec)
qed

lemma map_objectsAfter: "map (objectsAfter ps s) [fresh s..<fresh s + length ps] = ps"
  by (rule nth_equalityI) (simp_all add: objectsAfter_def)

subsection \<open>The paths of a read\<close>

lemma writeToFile_ok:
  "writable s \<Longrightarrow> writeToFile P now a s =
     (Inr (), s\<lparr>backup := (if primary s = None then backup s else primary s),
                 primary := Some (JSON_stringify P (products_of s a)),
                 arrays := (arrays s)(fresh s := arrays s a),
                 fresh := Suc (fresh s),
                 cache := Some (fresh s),
                 cacheTimestamp := now\<rparr>)"
  by (cases "primary s") (simp_all add: writeToFile_def newArray_def products_of_def)

lemma writeToFile_fail:
  "\<not> writable s \<Longrightarrow> writeToFile P now a s = (Inl (internal ''Falha ao salvar dados''), s)"
  by (cases "primary s") (simp_all add: writeToFile_def)

lemma initializeEmptyData_ok:
  "writable s \<Longrightarrow> initializeEmptyData P now s =
     (Inr (fresh s),
      s\<lparr>backup := (if primary s = None then backup s else primary s),
        primary := Some (JSON_stringify P []),
        arrays := (arrays s)(fresh s := [], Suc (fresh s) := []),
        fresh := Suc (Suc (fresh s)),
        cache := Some (Suc (fresh s)),
        cacheTimestamp := now\<rparr>)"
  by (cases "primary s")
    (simp_all add: initializeEmptyData_def newArray_def writeToFile_ok await_def products_of_def)

lemma initializeEmptyData_fail:
  "\<not> writable s \<Longrightarrow> initializeEmptyData P now s =
     (Inl (internal ''Falha ao salvar dados''),
      s\<lparr>arrays := (arrays s)(fresh s := []), fresh := Suc (fresh s)\<rparr>)"
  by (simp add: initializeEmptyData_def newArray_def writeToFile_fail await_def)

lemma getAllProducts_hit:
  "isCacheValid now s \<Longrightarrow> getAllProducts P now s =
     (Inr (fresh s),
      s\<lparr>arrays := (arrays s)(fresh s := arrays s (the (cache s))), fresh := Suc (fresh s)\<rparr>)"
  by (simp add: getAllProducts_def newArray_def)

lemma timeout_pos: "0 < cacheTimeout"
  by (simp add: cacheTimeout_def)

lemma recovery_path:
  assumes "\<not> isCacheValid now s" and "primary s = Some d" and "JSON_parse P d = None"
    and "backup s = Some b" and "JSON_parse P b = Some ps" and "writable s"
  shows "getAllProducts P now s =
     (Inr (fresh s + length ps),
      s\<lparr>objects := objectsAfter ps s,
        backup := Some d,
        primary := Some (JSON_stringify P ps),
        arrays := (arrays s)(fresh s + length ps := [fresh s..<fresh s + length ps],
                             Suc (fresh s + length ps) := [fresh s..<fresh s + length ps]),
        fresh := Suc (Suc (fresh s + length ps)),
        cache := Some (Suc (fresh s + length ps)),
        cacheTimestamp := now\<rparr>)"
  using assms
  by (simp add: getAllProducts_def readFromFile_def recoverFromBackup_def newObjects_closed
      newArray_def writeToFile_ok products_of_def map_objectsAfter)

lemma parse_path:
  assumes "\<not> isCacheValid now s" and "primary s = Some d" and "JSON_parse P d = Some ps"
  shows "\<exists>a s'. getAllProducts P now s = (Inr a, s') \<and> products_of s' a = ps
           \<and> primary s' = primary s \<and> backup s' = backup s \<and> cache s' = Some a"
  using assms
  by (simp add: getAllProducts_def readFromFile_def newObjects_closed newArray_def
      products_of_def map_objectsAfter)

text \<open>
  C1. With an unparseable primary file, a backup that parses to the records \<open>ps\<close>, no valid
  cache and a writable store, \<open>getAllProducts\<close> returns an array holding exactly \<open>ps\<close> (so
  as many records as the backup holds), and the primary file is overwritten with the
  serialisation of these records.
\<close>

theorem recovery_returns_backup:
  assumes "\<not> isCacheValid now s" and "primary s = Some d" and "JSON_parse P d = None"
    and "backup s = Some b" and "JSON_parse P b = Some ps" and "writable s"
  shows "\<exists>a s'. getAllProducts P now s = (Inr a, s') \<and> products_of s' a = ps
           \<and> length (products_of s' a) = length ps
           \<and> primary s' = Some (JSON_stringify P ps)"
  using recovery_path [OF assms]
  by (simp add: products_of_def map_objectsAfter)

lemma test_parse [simp]:
  "JSON_parse testPlatform ''[{broken'' = None"
  "JSON_parse testPlatform ''[mouse,teclado]'' = Some [mouse, teclado]"
  "JSON_stringify testPlatform [mouse, teclado] = ''[mouse,teclado]''"
  by (simp_all add: testPlatform_def)

theorem recovery_returns_backup_witness:
  "\<not> isCacheValid 1000 corruptedStore \<and> primary corruptedStore = Some ''[{broken''
   \<and> JSON_parse testPlatform ''[{broken'' = None
   \<and> backup corruptedStore = Some ''[mouse,teclado]''
   \<and> JSON_parse testPlatform ''[mouse,teclado]'' = Some [mouse, teclado]
   \<and> writable corruptedStore
   \<and> (\<exists>a s'. getAllProducts testPlatform 1000 corruptedStore = (Inr a, s')
         \<and> products_of s' a = [mouse, teclado]
         \<and> length (products_of s' a) = length [mouse, teclado]
         \<and> primary s' = Some ''[mouse,teclado]'')"
proof -
  have h: "\<not> isCacheValid 1000 corruptedStore" "primary corruptedStore = Some ''[{broken''"
    "backup corruptedStore = Some ''[mouse,teclado]''" "writable corruptedStore"
    by (simp_all add: isCacheValid_def corruptedStore_def)
  from recovery_returns_backup [OF h(1) h(2) test_parse(1) h(3) test_parse(2) h(4)] h
  show ?thesis by simp
qed

text \<open>
  C2. In the same situation the restore goes through \<open>writeToFile\<close>, which first copies the
  corrupted primary file over the backup: after the recovery the backup file holds the
  corrupted content, which does not parse, and no longer the recovered collection.
\<close>

theorem recovery_consumes_backup:
  assumes "\<not> isCacheValid now s" and "primary s = Some d" and "JSON_parse P d = None"
    and "backup s = Some b" and "JSON_parse P b = Some ps" and "writable s"
  shows "\<exists>a s'. getAllProducts P now s = (Inr a, s') \<and> backup s' = Some d
           \<and> backup s' \<noteq> Some b \<and> JSON_parse P (the (backup s')) = None"
  using recovery_path [OF assms] assms by auto

theorem recovery_consumes_backup_witness:
  "\<not> isCacheValid 1000 corruptedStore \<and> primary corruptedStore = Some ''[{broken''
   \<and> JSON_parse testPlatform ''[{broken'' = None
   \<and> backup corruptedStore = Some ''[mouse,teclado]''
   \<and> JSON_parse testPlatform ''[mouse,teclado]'' = Some [mouse, teclado]
   \<and> writable corruptedStore
   \<and> (\<exists>a s'. getAllProducts testPlatform 1000 corruptedStore = (Inr a, s')
         \<and> backup s' = Some ''[{broken'' \<and> backup s' \<noteq> Some ''[mouse,teclado]''
         \<and> JSON_parse testPlatform (the (backup s')) = None)"
proof -
  have h: "\<not> isCacheValid 1000 corruptedStore" "primary corruptedStore = Some ''[{broken''"
    "backup corruptedStore = Some ''[mouse,teclado]''" "writable corruptedStore"
    by (simp_all add: isCacheValid_def corruptedStore_def)
  from recovery_consumes_backup [OF h(1) h(2) test_parse(1) h(3) test_parse(2) h(4)] h
  show ?thesis by simp
qed

text \<open>
  C3. If the store is writable and the platform parses what it prints for the collection,
  then \<open>writeToFile\<close> succeeds, and after \<open>clearCache\<close> a read at any time returns an array
  holding the same products in the same order.
\<close>

theorem persist_load_round_trip:
  assumes "writable s"
    and "JSON_parse P (JSON_stringify P (products_of s a)) = Some (products_of s a)"
  shows "\<exists>s1 b s2. writeToFile P now a s = (Inr (), s1)
           \<and> getAllProducts P now' (clearCache s1) = (Inr b, s2)
           \<and> products_of s2 b = products_of s a"
proof -
  obtain s1 where w: "writeToFile P now a s = (Inr (), s1)"
    and p: "primary s1 = Some (JSON_stringify P (products_of s a))"
    using writeToFile_ok [OF assms(1)] by simp
  have "\<not> isCacheValid now' (clearCache s1)"
    by (simp add: isCacheValid_def clearCache_def)
  moreover have "primary (clearCache s1) = Some (JSON_stringify P (products_of s a))"
    using p by (simp add: clearCache_def)
  ultimately obtain b s2 where "getAllProducts P now' (clearCache s1) = (Inr b, s2)"
    and "products_of s2 b = products_of s a"
    using parse_path [OF _ _ assms(2)] by blast
  with w show ?thesis by blast
qed

theorem persist_load_round_trip_witness:
  "writable cachedStore
   \<and> JSON_parse testPlatform (JSON_stringify testPlatform (products_of cachedStore 0))
       = Some (products_of cachedStore 0)
   \<and> (\<exists>s1 b s2. writeToFile testPlatform 1000 0 cachedStore = (Inr (), s1)
         \<and> getAllProducts testPlatform 2000 (clearCache s1) = (Inr b, s2)
         \<and> products_of s2 b = [mouse, teclado])"
proof -
  have p: "products_of cachedStore 0 = [mouse, teclado]"
    by (simp add: products_of_def cachedStore_def)
  have h: "writable cachedStore"
    "JSON_parse testPlatform (JSON_stringify testPlatform (products_of cachedStore 0))
       = Some (products_of cachedStore 0)"
    by (simp_all add: p) (simp add: cachedStore_def)
  from persist_load_round_trip [OF h, of 1000 2000] h p show ?thesis by simp
qed

subsection \<open>What a successful read establishes\<close>

lemma getAllProducts_post:
  assumes "getAllProducts P now s = (Inr a, s1)"
  shows "isCacheValid now s1 \<and> arrays s1 (the (cache s1)) = arrays s1 a
     \<and> writable s1 = writable s \<and> fresh s \<le> fresh s1 \<and> a < fresh s1
     \<and> (\<forall>r<fresh s. objects s1 r = objects s r)
     \<and> (wf_heap s \<longrightarrow> wf_heap s1 \<and> (\<forall>r\<in>set (arrays s1 a). r < fresh s1))"
proof (cases "isCacheValid now s")
  case True
  then show ?thesis using assms
    by (auto simp: getAllProducts_hit isCacheValid_def wf_heap_iff less_Suc_eq)
next
  case False
  show ?thesis
  proof (cases "writable s")
    case True
    then show ?thesis using assms False
      by (auto simp: getAllProducts_def readFromFile_def recoverFromBackup_def newObjects_closed
        newArray_def writeToFile_ok initializeEmptyData_ok isCacheValid_def timeout_pos
        wf_heap_iff objectsAfter_def less_Suc_eq
        split: option.splits)
  next
    case w: False
    then show ?thesis using assms False
      by (auto simp: getAllProducts_def readFromFile_def recoverFromBackup_def newObjects_closed
        newArray_def writeToFile_fail initializeEmptyData_fail isCacheValid_def timeout_pos
        wf_heap_iff objectsAfter_def less_Suc_eq
        split: option.splits)
  qed
qed

lemma getAllProducts_again:
  assumes "getAllProducts P now s = (Inr a, s1)"
  shows "getAllProducts P now s1 =
     (Inr (fresh s1), s1\<lparr>arrays := (arrays s1)(fresh s1 := arrays s1 a), fresh := Suc (fresh s1)\<rparr>)"
  using getAllProducts_post [OF assms] by (simp add: getAllProducts_hit)

lemma getProductById_Inr:
  assumes "ProductService_getProductById P now i s = (Inr r, s1)"
  shows "\<exists>a. getAllProducts P now s = (Inr a, s1)
           \<and> find (\<lambda>p. idp (objects s1 p) = i) (arrays s1 a) = Some r"
  using assms
  by (auto simp: ProductService_getProductById_def DataService_getProductById_def await_def
      split: prod.splits sum.splits option.splits)

lemma getProductById_found:
  assumes "getAllProducts P now s = (Inr a, s1)"
    and "find (\<lambda>p. idp (objects s1 p) = i) (arrays s1 a) = Some r"
  shows "ProductService_getProductById P now i s = (Inr r, s1)"
  using assms
  by (simp add: ProductService_getProductById_def DataService_getProductById_def await_def)

lemma getProductById_again:
  assumes "ProductService_getProductById P now i s = (Inr r, s1)"
  shows "\<exists>a. ProductService_getProductById P now i s1 =
     (Inr r, s1\<lparr>arrays := (arrays s1)(fresh s1 := arrays s1 a), fresh := Suc (fresh s1)\<rparr>)
     \<and> getAllProducts P now s = (Inr a, s1)"
proof -
  from getProductById_Inr [OF assms] obtain a where
    a: "getAllProducts P now s = (Inr a, s1)"
    and f: "find (\<lambda>p. idp (objects s1 p) = i) (arrays s1 a) = Some r" by blast
  let ?s2 = "s1\<lparr>arrays := (arrays s1)(fresh s1 := arrays s1 a), fresh := Suc (fresh s1)\<rparr>"
  have "find (\<lambda>p. idp (objects ?s2 p) = i) (arrays ?s2 (fresh s1)) = Some r"
    using f by simp
  from getProductById_found [OF getAllProducts_again [OF a] this] a show ?thesis by blast
qed

lemma updateProductStock_negative:
  assumes "ProductService_getProductById P now i s = (Inr r, s1)"
    and "stock (objects s1 r) - q < 0"
  shows "updateProductStock P now i q Subtract s =
           (Inl (badRequest (''Estoque n'' @ a_tilde @ ''o pode ficar negativo'')), s1)"
  using assms by (simp add: updateProductStock_def await_def)

text \<open>
  C4. If the product with the given id is found with stock \<open>st\<close> and \<open>st - q < 0\<close>, then
  \<open>updateProductStock\<close> with \<open>subtract\<close> throws, and the state it leaves is the state the
  lookup alone leaves: the check runs before any mutation and nothing is written. Looking
  the product up again gives the same record with the same stock.
\<close>

theorem stock_check_before_mutation:
  assumes "ProductService_getProductById P now i s = (Inr r, s1)"
    and "stock (objects s1 r) - q < 0"
  shows "updateProductStock P now i q Subtract s =
           (Inl (badRequest (''Estoque n'' @ a_tilde @ ''o pode ficar negativo'')), s1)
         \<and> (\<exists>s2. ProductService_getProductById P now i s1 = (Inr r, s2)
               \<and> stock (objects s2 r) = stock (objects s1 r)
               \<and> primary s2 = primary s1 \<and> backup s2 = backup s1)"
proof -
  note updateProductStock_negative [OF assms]
  moreover from getProductById_again [OF assms(1)]
  have "\<exists>s2. ProductService_getProductById P now i s1 = (Inr r, s2)
               \<and> stock (objects s2 r) = stock (objects s1 r)
               \<and> primary s2 = primary s1 \<and> backup s2 = backup s1"
    by auto
  ultimately show ?thesis by blast
qed

lemma cachedStore_lookup:
  "ProductService_getProductById testPlatform 1000 ''id-1'' cachedStore = (Inr 1, cachedStoreRead)"
proof -
  have v: "isCacheValid 1000 cachedStore"
    by (simp add: isCacheValid_def cachedStore_def cacheTimeout_def)
  have "getAllProducts testPlatform 1000 cachedStore = (Inr 3, cachedStoreRead)"
    unfolding getAllProducts_hit [OF v] by (simp add: cachedStoreRead_def cachedStore_def)
  moreover have "find (\<lambda>p. idp (objects cachedStoreRead p) = ''id-1'') (arrays cachedStoreRead 3) = Some 1"
    by (simp add: cachedStoreRead_def cachedStore_def mouse_def)
  ultimately show ?thesis by (rule getProductById_found)
qed

lemma cachedStore_stock: "stock (objects cachedStoreRead 1) = 50"
  by (simp add: cachedStoreRead_def cachedStore_def mouse_def)

theorem stock_check_before_mutation_witness:
  "ProductService_getProductById testPlatform 1000 ''id-1'' cachedStore = (Inr 1, cachedStoreRead)
   \<and> stock (objects cachedStoreRead 1) = 50 \<and> (50::rat) - 100 < 0
   \<and> updateProductStock testPlatform 1000 ''id-1'' 100 Subtract cachedStore =
           (Inl (badRequest (''Estoque n'' @ a_tilde @ ''o pode ficar negativo'')), cachedStoreRead)
   \<and> (\<exists>s2. ProductService_getProductById testPlatform 1000 ''id-1'' cachedStoreRead = (Inr 1, s2)
               \<and> stock (objects s2 1) = 50)"
proof -
  have "stock (objects cachedStoreRead 1) - 100 < 0"
    using cachedStore_stock by simp
  from stock_check_before_mutation [OF cachedStore_lookup this] cachedStore_lookup cachedStore_stock
  show ?thesis by auto
qed

lemma messages_differ:
  "''Pre'' @ c_cedilla @ ''o deve ser maior que zero'' \<noteq> ''Estoque n'' @ a_tilde @ ''o pode ficar negativo''"
  "''Pre'' @ c_cedilla @ ''o n'' @ a_tilde @ ''o pode exceder R$ 999.999,99'' \<noteq> ''Estoque n'' @ a_tilde @ ''o pode ficar negativo''"
  "''Estoque n'' @ a_tilde @ ''o pode ser negativo'' \<noteq> ''Estoque n'' @ a_tilde @ ''o pode ficar negativo''"
  "''Estoque deve ser um n'' @ u_acute @ ''mero inteiro'' \<noteq> ''Estoque n'' @ a_tilde @ ''o pode ficar negativo''"
  by (simp_all add: a_tilde_def c_cedilla_def u_acute_def)

text \<open>
  C5, as the code has it. When a subtract adjustment would make the stock negative,
  \<open>updateProductStock\<close> throws \<open>ApiError.badRequest\<close>: status 400 and code \<open>BAD_REQUEST\<close>,
  the status and code of every error that \<open>validateProductPrice\<close> and
  \<open>validateProductStock\<close> throw. Only the message differs.
\<close>

theorem negative_stock_is_bad_request:
  assumes "ProductService_getProductById P now i s = (Inr r, s1)"
    and "stock (objects s1 r) - q < 0"
  shows "\<exists>e s'. updateProductStock P now i q Subtract s = (Inl e, s')
           \<and> statusCode e = 400 \<and> errorCode e = ''BAD_REQUEST''
           \<and> (\<forall>p t. p \<le> 0 \<or> p > 99999999 / 100 \<longrightarrow>
                 (\<exists>e'. fst (validateProductPrice p t) = Inl e' \<and> statusCode e' = statusCode e
                    \<and> errorCode e' = errorCode e \<and> message e' \<noteq> message e))
           \<and> (\<forall>n t. n < 0 \<or> \<not> Number_isInteger n \<longrightarrow>
                 (\<exists>e'. fst (validateProductStock n t) = Inl e' \<and> statusCode e' = statusCode e
                    \<and> errorCode e' = errorCode e \<and> message e' \<noteq> message e))"
  unfolding updateProductStock_negative [OF assms]
  by (auto simp: badRequest_def validateProductPrice_def validateProductStock_def messages_differ)

theorem negative_stock_is_bad_request_witness:
  "ProductService_getProductById testPlatform 1000 ''id-1'' cachedStore = (Inr 1, cachedStoreRead)
   \<and> stock (objects cachedStoreRead 1) - 100 < 0
   \<and> (\<exists>e s'. updateProductStock testPlatform 1000 ''id-1'' 100 Subtract cachedStore = (Inl e, s')
         \<and> statusCode e = 400 \<and> errorCode e = ''BAD_REQUEST''
         \<and> (\<exists>e'. fst (validateProductPrice 0 cachedStore) = Inl e' \<and> statusCode e' = statusCode e
                    \<and> errorCode e' = errorCode e \<and> message e' \<noteq> message e)
         \<and> (\<exists>e'. fst (validateProductStock (- 1) cachedStore) = Inl e' \<and> statusCode e' = statusCode e
                    \<and> errorCode e' = errorCode e \<and> message e' \<noteq> message e))"
proof -
  have h: "stock (objects cachedStoreRead 1) - 100 < 0"
    using cachedStore_stock by simp
  from negative_stock_is_bad_request [OF cachedStore_lookup h]
  obtain e s' where e: "updateProductStock testPlatform 1000 ''id-1'' 100 Subtract cachedStore = (Inl e, s')"
    "statusCode e = 400" "errorCode e = ''BAD_REQUEST''"
    and p: "\<And>p t. p \<le> 0 \<or> p > 99999999 / 100 \<Longrightarrow>
                 (\<exists>e'. fst (validateProductPrice p t) = Inl e' \<and> statusCode e' = statusCode e
                    \<and> errorCode e' = errorCode e \<and> message e' \<noteq> message e)"
    and n: "\<And>n t. n < 0 \<or> \<not> Number_isInteger n \<Longrightarrow>
                 (\<exists>e'. fst (validateProductStock n t) = Inl e' \<and> statusCode e' = statusCode e
                    \<and> errorCode e' = errorCode e \<and> message e' \<noteq> message e)"
    by blast
  from p [of 0 cachedStore] n [of "- 1" cachedStore] e cachedStore_lookup h
  show ?thesis by simp
qed

text \<open>
  C5, as the specification states it, fails on the product \<open>mouse\<close> (stock 50) of
  \<open>cachedStore\<close>: subtracting 100 throws an error with the status and code of the error
  that \<open>validateProductPrice\<close> throws for the price 0 and \<open>validateProductStock\<close> for the
  stock \<open>-1\<close>.
\<close>

theorem domain_error_code_counterexample:
  "fst (updateProductStock testPlatform 1000 ''id-1'' 100 Subtract cachedStore)
     = Inl (ApiError (''Estoque n'' @ a_tilde @ ''o pode ficar negativo'') 400 ''BAD_REQUEST'')
   \<and> fst (validateProductPrice 0 cachedStore)
     = Inl (ApiError (''Pre'' @ c_cedilla @ ''o deve ser maior que zero'') 400 ''BAD_REQUEST'')
   \<and> fst (validateProductStock (- 1) cachedStore)
     = Inl (ApiError (''Estoque n'' @ a_tilde @ ''o pode ser negativo'') 400 ''BAD_REQUEST'')
   \<and> \<not> errorCode (projl (fst (updateProductStock testPlatform 1000 ''id-1'' 100 Subtract cachedStore)))
         \<noteq> errorCode (projl (fst (validateProductPrice 0 cachedStore)))"
proof -
  have h: "stock (objects cachedStoreRead 1) - 100 < 0"
    using cachedStore_stock by simp
  show ?thesis
    unfolding updateProductStock_negative [OF cachedStore_lookup h]
    by (simp add: badRequest_def validateProductPrice_def validateProductStock_def)
qed

subsection \<open>Array methods\<close>

lemma findIndex_ge: "- 1 \<le> findIndex t xs"
  by (induction xs) (auto simp: Let_def)

lemma findIndex_found:
  "\<exists>x\<in>set xs. t x \<Longrightarrow>
     0 \<le> findIndex t xs \<and> nat (findIndex t xs) < length xs \<and> t (xs ! nat (findIndex t xs))"
proof (induction xs)
  case Nil
  then show ?case by simp
next
  case (Cons x xs)
  show ?case
  proof (cases "t x")
    case True
    then show ?thesis by simp
  next
    case False
    with Cons.prems have "\<exists>x\<in>set xs. t x" by auto
    from Cons.IH [OF this] False show ?thesis
      by (auto simp: Let_def nat_add_distrib)
  qed
qed

lemma find_in_set: "x \<in> set xs \<Longrightarrow> t x \<Longrightarrow> \<exists>y. find t xs = Some y \<and> t y \<and> y \<in> set xs"
  by (induction xs) auto

lemma find_none: "\<forall>x\<in>set xs. \<not> t x \<Longrightarrow> find t xs = None"
  by (induction xs) auto

subsection \<open>Name uniqueness\<close>

lemma validateProductName_duplicate:
  assumes "getAllProducts P now s = (Inr a, s1)" and "r \<in> set (arrays s1 a)"
    and "toLowerCase P (name (objects s1 r)) = toLowerCase P n"
    and "Some (idp (objects s1 r)) \<noteq> excludeId"
  shows "validateProductName P now n excludeId s =
           (Inl (conflict (''J'' @ a_acute @ '' existe um produto com este nome'')), s1)"
proof -
  from find_in_set [OF assms(2), of "\<lambda>p. toLowerCase P (name (objects s1 p)) = toLowerCase P n
                          \<and> Some (idp (objects s1 p)) \<noteq> excludeId"] assms(3,4)
  obtain y where "find (\<lambda>p. toLowerCase P (name (objects s1 p)) = toLowerCase P n
                          \<and> Some (idp (objects s1 p)) \<noteq> excludeId) (arrays s1 a) = Some y"
    by blast
  then show ?thesis using assms(1)
    by (simp add: validateProductName_def await_def)
qed

lemma validateProductName_unique:
  assumes "getAllProducts P now s = (Inr a, s1)"
    and "\<forall>r\<in>set (arrays s1 a). toLowerCase P (name (objects s1 r)) = toLowerCase P n
            \<longrightarrow> Some (idp (objects s1 r)) = excludeId"
  shows "validateProductName P now n excludeId s = (Inr (), s1)"
proof -
  have "find (\<lambda>p. toLowerCase P (name (objects s1 p)) = toLowerCase P n
                          \<and> Some (idp (objects s1 p)) \<noteq> excludeId) (arrays s1 a) = None"
    using assms(2) by (intro find_none) auto
  then show ?thesis using assms(1)
    by (simp add: validateProductName_def await_def)
qed

lemma create_duplicate_name:
  assumes "getAllProducts P now s = (Inr a, s1)" and "r \<in> set (arrays s1 a)"
    and "toLowerCase P (name (objects s1 r)) = toLowerCase P (name_c d)"
  shows "ProductService_createProduct P now uuid d s =
           (Inl (conflict (''J'' @ a_acute @ '' existe um produto com este nome'')), s1)"
  using validateProductName_duplicate [OF assms, of None]
  by (simp add: ProductService_createProduct_def await_def)

lemma getProductById_present:
  assumes "getAllProducts P now s = (Inr a, s1)" and "r0 \<in> set (arrays s1 a)"
    and "idp (objects s1 r0) = i"
  shows "\<exists>r. ProductService_getProductById P now i s = (Inr r, s1)"
proof -
  from find_in_set [OF assms(2), of "\<lambda>p. idp (objects s1 p) = i"] assms(3)
  obtain y where "find (\<lambda>p. idp (objects s1 p) = i) (arrays s1 a) = Some y" by blast
  from getProductById_found [OF assms(1) this] show ?thesis by blast
qed

text \<open>
  In \<open>updateProduct\<close> the name is validated on a second read, which finds the cache valid.
\<close>

lemma update_duplicate_name:
  assumes "getAllProducts P now s = (Inr a, s1)" and "r0 \<in> set (arrays s1 a)"
    and "idp (objects s1 r0) = i" and "name_u u = Some n"
    and "r \<in> set (arrays s1 a)" and "idp (objects s1 r) \<noteq> i"
    and "toLowerCase P (name (objects s1 r)) = toLowerCase P n"
  shows "\<exists>s'. ProductService_updateProduct P now i u s =
           (Inl (conflict (''J'' @ a_acute @ '' existe um produto com este nome'')), s')"
proof -
  from getProductById_present [OF assms(1-3)]
  obtain r1 where g: "ProductService_getProductById P now i s = (Inr r1, s1)" by blast
  let ?s2 = "s1\<lparr>arrays := (arrays s1)(fresh s1 := arrays s1 a), fresh := Suc (fresh s1)\<rparr>"
  have v: "validateProductName P now n (Some i) s1 =
           (Inl (conflict (''J'' @ a_acute @ '' existe um produto com este nome'')), ?s2)"
    using assms(5-7)
    by (intro validateProductName_duplicate [OF getAllProducts_again [OF assms(1)], of r]) simp_all
  show ?thesis
    using g v assms(4)
    by (simp add: ProductService_updateProduct_def await_def whenDefined_def)
qed

lemma findIndex_not_minus1: "\<exists>x\<in>set xs. t x \<Longrightarrow> findIndex t xs \<noteq> - 1"
  using findIndex_found [of xs t] by auto

lemma DataService_updateProduct_ok:
  assumes "getAllProducts P now s = (Inr a, s1)"
    and "\<exists>r\<in>set (arrays s1 a). idp (objects s1 r) = i" and "writable s"
  shows "\<exists>r' s'. DataService_updateProduct P now i u s = (Inr r', s')
           \<and> objects s' r' =
               merge (objects s1 (arrays s1 a ! nat (findIndex (\<lambda>p. idp (objects s1 p) = i) (arrays s1 a))))
                 u i (toISOString P now)"
proof -
  note k = findIndex_not_minus1 [OF assms(2)]
  have w: "writable s1" using getAllProducts_post [OF assms(1)] assms(3) by simp
  show ?thesis
    using assms(1) k w
    by (simp add: DataService_updateProduct_def await_def Let_def newObject_def writeToFile_ok)
qed

lemma validators_pass:
  "0 < p \<Longrightarrow> p \<le> 99999999 / 100 \<Longrightarrow> validateProductPrice p s = (Inr (), s)"
  "0 \<le> n \<Longrightarrow> Number_isInteger n \<Longrightarrow> validateProductStock n s = (Inr (), s)"
  by (simp_all add: validateProductPrice_def validateProductStock_def)

lemma whenDefined_pass:
  "(\<And>x. v = Some x \<Longrightarrow> check x s = (Inr (), s)) \<Longrightarrow> whenDefined v check s = (Inr (), s)"
  by (cases v) (simp_all add: whenDefined_def)

lemma update_own_name:
  assumes a: "getAllProducts P now s = (Inr a, s1)" and r0: "r0 \<in> set (arrays s1 a)"
    and i: "idp (objects s1 r0) = i" and n: "name_u u = Some n"
    and own: "toLowerCase P n = toLowerCase P (name (objects s1 r0))"
    and uniq: "\<forall>r\<in>set (arrays s1 a). \<forall>r'\<in>set (arrays s1 a).
            toLowerCase P (name (objects s1 r)) = toLowerCase P (name (objects s1 r'))
            \<longrightarrow> idp (objects s1 r) = idp (objects s1 r')"
    and price: "\<forall>p. price_u u = Some p \<longrightarrow> 0 < p \<and> p \<le> 99999999 / 100"
    and stock: "\<forall>k. stock_u u = Some k \<longrightarrow> 0 \<le> k \<and> Number_isInteger k"
    and w: "writable s"
  shows "\<exists>r' s'. ProductService_updateProduct P now i u s = (Inr r', s')
           \<and> name (objects s' r') = n \<and> idp (objects s' r') = i"
proof -
  from getProductById_present [OF a r0 i]
  obtain r1 where g: "ProductService_getProductById P now i s = (Inr r1, s1)" by blast
  let ?s2 = "s1\<lparr>arrays := (arrays s1)(fresh s1 := arrays s1 a), fresh := Suc (fresh s1)\<rparr>"
  let ?s3 = "?s2\<lparr>arrays := (arrays ?s2)(fresh ?s2 := arrays ?s2 (fresh s1)), fresh := Suc (fresh ?s2)\<rparr>"
  note a2 = getAllProducts_again [OF a]
  have a3: "getAllProducts P now ?s2 = (Inr (fresh ?s2), ?s3)"
    by (rule getAllProducts_again [OF a2])
  have "\<forall>r\<in>set (arrays ?s2 (fresh s1)).
          toLowerCase P (name (objects ?s2 r)) = toLowerCase P n \<longrightarrow> Some (idp (objects ?s2 r)) = Some i"
  proof (intro ballI impI)
    fix r assume "r \<in> set (arrays ?s2 (fresh s1))"
      and e: "toLowerCase P (name (objects ?s2 r)) = toLowerCase P n"
    then have r: "r \<in> set (arrays s1 a)" by simp
    from e own have "toLowerCase P (name (objects s1 r)) = toLowerCase P (name (objects s1 r0))"
      by simp
    with uniq r r0 have "idp (objects s1 r) = idp (objects s1 r0)" by blast
    with i show "Some (idp (objects ?s2 r)) = Some i" by simp
  qed
  from validateProductName_unique [OF a2 this]
  have v: "whenDefined (name_u u) (\<lambda>n. validateProductName P now n (Some i)) s1 = (Inr (), ?s2)"
    using n by (simp add: whenDefined_def)
  have vp: "whenDefined (price_u u) validateProductPrice ?s2 = (Inr (), ?s2)"
    using price by (intro whenDefined_pass validators_pass) auto
  have vs: "whenDefined (stock_u u) validateProductStock ?s2 = (Inr (), ?s2)"
    using stock by (intro whenDefined_pass validators_pass) auto
  have w2: "writable ?s2" using getAllProducts_post [OF a] w by simp
  have "\<exists>r\<in>set (arrays ?s2 (fresh s1)). idp (objects ?s2 r) = i"
    using r0 i by auto
  then have "\<exists>r\<in>set (arrays ?s3 (fresh ?s2)). idp (objects ?s3 r) = i"
    by simp
  from DataService_updateProduct_ok [where u = "withUpdatedAt u (toISOString P now)", OF a3 this w2]
  have "\<exists>r' s' p. DataService_updateProduct P now i (withUpdatedAt u (toISOString P now)) ?s2 = (Inr r', s')
     \<and> objects s' r' = merge p (withUpdatedAt u (toISOString P now)) i (toISOString P now)"
    by fastforce
  then obtain r' s' p where
    d: "DataService_updateProduct P now i (withUpdatedAt u (toISOString P now)) ?s2 = (Inr r', s')"
    and o: "objects s' r' = merge p (withUpdatedAt u (toISOString P now)) i (toISOString P now)"
    by blast
  have "name (objects s' r') = n \<and> idp (objects s' r') = i"
    unfolding o using n by (simp add: merge_def withUpdatedAt_def)
  moreover have "ProductService_updateProduct P now i u s = (Inr r', s')"
    using g v vp vs d by (simp add: ProductService_updateProduct_def await_def)
  ultimately show ?thesis by blast
qed

lemma cachedStore_read: "getAllProducts testPlatform 1000 cachedStore = (Inr 3, cachedStoreRead)"
proof -
  have v: "isCacheValid 1000 cachedStore"
    by (simp add: isCacheValid_def cachedStore_def cacheTimeout_def)
  show ?thesis
    unfolding getAllProducts_hit [OF v] by (simp add: cachedStoreRead_def cachedStore_def)
qed

lemma cachedStoreRead_simps:
  "arrays cachedStoreRead 3 = [1, 2]"
  "objects cachedStoreRead 1 = mouse"
  "objects cachedStoreRead (Suc 0) = mouse"
  "objects cachedStoreRead 2 = teclado"
  "writable cachedStore"
  by (simp_all add: cachedStoreRead_def cachedStore_def)

lemma lower_simps:
  "toLowerCase testPlatform ''Mouse'' = ''mouse''"
  "toLowerCase testPlatform ''MOUSE'' = ''mouse''"
  "toLowerCase testPlatform ''mouse'' = ''mouse''"
  "toLowerCase testPlatform ''Teclado'' = ''teclado''"
  by (simp_all add: testPlatform_def asciiLower_def)

lemma concrete_fields:
  "name mouse = ''Mouse''" "idp mouse = ''id-1''" "name teclado = ''Teclado''"
  "idp teclado = ''id-2''" "stock mouse = 50"
  "name_c (createNamed n) = n" "name_u (nameOnly n) = Some n"
  "price_u (nameOnly n) = None" "stock_u (nameOnly n) = None"
  by (simp_all add: mouse_def teclado_def createNamed_def nameOnly_def)

text \<open>
  C6. Name uniqueness is enforced through \<open>toLowerCase\<close>. (1) Creating a product whose name
  equals, in lower case, the name of a product of the collection throws \<open>CONFLICT\<close>.
  (2) Updating the name of an existing product to the name, in lower case, of a product
  with another id throws \<open>CONFLICT\<close>. (3) Updating the name of an existing product to its
  own name up to case succeeds, on a writable store and a collection whose names are
  unique, when the other updated fields are valid.
\<close>

theorem name_uniqueness:
  "(getAllProducts P now s = (Inr a, s1) \<and> r \<in> set (arrays s1 a)
      \<and> toLowerCase P (name (objects s1 r)) = toLowerCase P (name_c d)
    \<longrightarrow> ProductService_createProduct P now uuid d s =
          (Inl (conflict (''J'' @ a_acute @ '' existe um produto com este nome'')), s1))
   \<and> (getAllProducts P now s = (Inr a, s1) \<and> r0 \<in> set (arrays s1 a)
      \<and> idp (objects s1 r0) = i \<and> name_u u = Some n
      \<and> r \<in> set (arrays s1 a) \<and> idp (objects s1 r) \<noteq> i
      \<and> toLowerCase P (name (objects s1 r)) = toLowerCase P n
    \<longrightarrow> (\<exists>s'. ProductService_updateProduct P now i u s =
          (Inl (conflict (''J'' @ a_acute @ '' existe um produto com este nome'')), s')))
   \<and> (getAllProducts P now s = (Inr a, s1) \<and> r0 \<in> set (arrays s1 a)
      \<and> idp (objects s1 r0) = i \<and> name_u u = Some n
      \<and> toLowerCase P n = toLowerCase P (name (objects s1 r0))
      \<and> (\<forall>x\<in>set (arrays s1 a). \<forall>y\<in>set (arrays s1 a).
            toLowerCase P (name (objects s1 x)) = toLowerCase P (name (objects s1 y))
            \<longrightarrow> idp (objects s1 x) = idp (objects s1 y))
      \<and> (\<forall>p. price_u u = Some p \<longrightarrow> 0 < p \<and> p \<le> 99999999 / 100)
      \<and> (\<forall>k. stock_u u = Some k \<longrightarrow> 0 \<le> k \<and> Number_isInteger k)
      \<and> writable s
    \<longrightarrow> (\<exists>r' s'. ProductService_updateProduct P now i u s = (Inr r', s')
           \<and> name (objects s' r') = n \<and> idp (objects s' r') = i))"
proof (intro conjI impI)
  assume "getAllProducts P now s = (Inr a, s1) \<and> r \<in> set (arrays s1 a)
      \<and> toLowerCase P (name (objects s1 r)) = toLowerCase P (name_c d)"
  then show "ProductService_createProduct P now uuid d s =
          (Inl (conflict (''J'' @ a_acute @ '' existe um produto com este nome'')), s1)"
    by (elim conjE) (rule create_duplicate_name)
next
  assume "getAllProducts P now s = (Inr a, s1) \<and> r0 \<in> set (arrays s1 a)
      \<and> idp (objects s1 r0) = i \<and> name_u u = Some n
      \<and> r \<in> set (arrays s1 a) \<and> idp (objects s1 r) \<noteq> i
      \<and> toLowerCase P (name (objects s1 r)) = toLowerCase P n"
  then show "\<exists>s'. ProductService_updateProduct P now i u s =
          (Inl (conflict (''J'' @ a_acute @ '' existe um produto com este nome'')), s')"
    by (elim conjE) (rule update_duplicate_name [of P now s a s1 r0 i u n r])
next
  assume h: "getAllProducts P now s = (Inr a, s1) \<and> r0 \<in> set (arrays s1 a)
      \<and> idp (objects s1 r0) = i \<and> name_u u = Some n
      \<and> toLowerCase P n = toLowerCase P (name (objects s1 r0))
      \<and> (\<forall>x\<in>set (arrays s1 a). \<forall>y\<in>set (arrays s1 a).
            toLowerCase P (name (objects s1 x)) = toLowerCase P (name (objects s1 y))
            \<longrightarrow> idp (objects s1 x) = idp (objects s1 y))
      \<and> (\<forall>p. price_u u = Some p \<longrightarrow> 0 < p \<and> p \<le> 99999999 / 100)
      \<and> (\<forall>k. stock_u u = Some k \<longrightarrow> 0 \<le> k \<and> Number_isInteger k)
      \<and> writable s"
  show "\<exists>r' s'. ProductService_updateProduct P now i u s = (Inr r', s')
           \<and> name (objects s' r') = n \<and> idp (objects s' r') = i"
    using h by (elim conjE) (rule update_own_name [of P now s a s1 r0 i u n])
qed

theorem name_uniqueness_witness:
  "getAllProducts testPlatform 1000 cachedStore = (Inr 3, cachedStoreRead)
   \<and> 1 \<in> set (arrays cachedStoreRead 3) \<and> 2 \<in> set (arrays cachedStoreRead 3)
   \<and> name (objects cachedStoreRead 1) = ''Mouse'' \<and> idp (objects cachedStoreRead 1) = ''id-1''
   \<and> idp (objects cachedStoreRead 2) = ''id-2''
   \<and> toLowerCase testPlatform ''Mouse'' = toLowerCase testPlatform ''MOUSE''
   \<and> ProductService_createProduct testPlatform 1000 ''id-9'' (createNamed ''MOUSE'') cachedStore =
          (Inl (conflict (''J'' @ a_acute @ '' existe um produto com este nome'')), cachedStoreRead)
   \<and> (\<exists>s'. ProductService_updateProduct testPlatform 1000 ''id-2'' (nameOnly ''MOUSE'') cachedStore =
          (Inl (conflict (''J'' @ a_acute @ '' existe um produto com este nome'')), s'))
   \<and> (\<exists>r' s'. ProductService_updateProduct testPlatform 1000 ''id-1'' (nameOnly ''MOUSE'') cachedStore
          = (Inr r', s')
        \<and> name (objects s' r') = ''MOUSE'' \<and> idp (objects s' r') = ''id-1'')"
proof -
  note facts = cachedStore_read cachedStoreRead_simps lower_simps concrete_fields
  have 1: "ProductService_createProduct testPlatform 1000 ''id-9'' (createNamed ''MOUSE'') cachedStore =
          (Inl (conflict (''J'' @ a_acute @ '' existe um produto com este nome'')), cachedStoreRead)"
    by (rule name_uniqueness [of testPlatform 1000 cachedStore 3 cachedStoreRead 1
          "createNamed ''MOUSE''" "''id-9''", THEN conjunct1, THEN mp])
       (simp add: facts)
  have 2: "\<exists>s'. ProductService_updateProduct testPlatform 1000 ''id-2'' (nameOnly ''MOUSE'') cachedStore =
          (Inl (conflict (''J'' @ a_acute @ '' existe um produto com este nome'')), s')"
    by (rule name_uniqueness [of testPlatform 1000 cachedStore 3 cachedStoreRead 1
          "createNamed ''MOUSE''" "''id-9''" 2 "''id-2''" "nameOnly ''MOUSE''" "''MOUSE''",
          THEN conjunct2, THEN conjunct1, THEN mp])
       (simp add: facts)
  have 3: "\<exists>r' s'. ProductService_updateProduct testPlatform 1000 ''id-1'' (nameOnly ''MOUSE'') cachedStore
          = (Inr r', s')
        \<and> name (objects s' r') = ''MOUSE'' \<and> idp (objects s' r') = ''id-1''"
    by (rule name_uniqueness [of testPlatform 1000 cachedStore 3 cachedStoreRead 1
          "createNamed ''MOUSE''" "''id-9''" 1 "''id-1''" "nameOnly ''MOUSE''" "''MOUSE''",
          THEN conjunct2, THEN conjunct2, THEN mp])
       (simp add: facts)
  from 1 2 3 show ?thesis by (simp add: facts)
qed

subsection \<open>Search\<close>

lemma slice_page:
  assumes "0 \<le> start" and "0 \<le> n"
  shows "slice start (start + n) xs = take (nat n) (drop (nat start) xs)"
proof (cases "int (length xs) \<le> start")
  case True
  then show ?thesis using assms
    by (simp add: slice_def relativeIndex_def Let_def min_def max_def)
next
  case False
  then show ?thesis using assms
    by (auto simp: slice_def relativeIndex_def Let_def min_def max_def nat_diff_distrib
        nat_add_distrib)
qed

lemma length_insertBy: "length (insertBy cmp x xs) = Suc (length xs)"
  by (induction xs) auto

lemma length_sortBy: "length (sortBy cmp xs) = length xs"
  unfolding sortBy_def by (induction xs) (auto simp: length_insertBy)

lemma length_ordered: "length (ordered P f s rs) = length rs"
  by (cases "sortBy_f f") (simp_all add: ordered_def length_sortBy)

lemma filterSearch_post:
  assumes "filterSearch P f a s = (b, s')" and "a < fresh s"
  shows "arrays s' b =
           filter (\<lambda>r. case search_f f of None \<Rightarrow> True
                       | Some q \<Rightarrow> q = [] \<or> matchesSearch P (toLowerCase P q) (objects s r))
             (arrays s a)
         \<and> objects s' = objects s \<and> b < fresh s' \<and> fresh s \<le> fresh s' \<and> cache s' = cache s
         \<and> cacheTimestamp s' = cacheTimestamp s
         \<and> (\<forall>c<fresh s. arrays s' c = arrays s c) \<and> (b = a \<or> fresh s \<le> b)"
  using assms
  by (auto simp: filterSearch_def newArray_def split: option.splits if_splits)

lemma filterCategory_post:
  assumes "filterCategory P f a s = (b, s')" and "a < fresh s"
  shows "arrays s' b =
           filter (\<lambda>r. case category_f f of None \<Rightarrow> True
                       | Some c \<Rightarrow> c = [] \<or> toLowerCase P (category (objects s r)) = toLowerCase P c)
             (arrays s a)
         \<and> objects s' = objects s \<and> b < fresh s' \<and> fresh s \<le> fresh s' \<and> cache s' = cache s
         \<and> cacheTimestamp s' = cacheTimestamp s
         \<and> (\<forall>c<fresh s. arrays s' c = arrays s c) \<and> (b = a \<or> fresh s \<le> b)"
  using assms
  by (auto simp: filterCategory_def newArray_def split: option.splits if_splits)

lemma filterActive_post:
  assumes "filterActive f a s = (b, s')" and "a < fresh s"
  shows "arrays s' b =
           filter (\<lambda>r. case isActive_f f of None \<Rightarrow> True | Some v \<Rightarrow> isActive (objects s r) = v)
             (arrays s a)
         \<and> objects s' = objects s \<and> b < fresh s' \<and> fresh s \<le> fresh s' \<and> cache s' = cache s
         \<and> cacheTimestamp s' = cacheTimestamp s
         \<and> (\<forall>c<fresh s. arrays s' c = arrays s c) \<and> (b = a \<or> fresh s \<le> b)"
  using assms
  by (auto simp: filterActive_def newArray_def split: option.splits if_splits)

lemma sortProducts_post:
  "arrays (sortProducts P f a s) a = ordered P f s (arrays s a)
   \<and> objects (sortProducts P f a s) = objects s \<and> fresh (sortProducts P f a s) = fresh s
   \<and> cache (sortProducts P f a s) = cache s
   \<and> cacheTimestamp (sortProducts P f a s) = cacheTimestamp s
   \<and> (\<forall>c. c \<noteq> a \<longrightarrow> arrays (sortProducts P f a s) c = arrays s c)"
  by (cases "sortBy_f f") (simp_all add: sortProducts_def ordered_def)

lemma paginate_page:
  assumes "page_f f = Some page" and "limit_f f = Some limit" and "1 \<le> page" and "1 \<le> limit"
  shows "paginate f a s =
     (fresh s, s\<lparr>arrays := (arrays s)(fresh s :=
                    take (nat limit) (drop (nat ((page - 1) * limit)) (arrays s a))),
                fresh := Suc (fresh s)\<rparr>)"
proof -
  have "slice ((page - 1) * limit) ((page - 1) * limit + limit) (arrays s a)
      = take (nat limit) (drop (nat ((page - 1) * limit)) (arrays s a))"
    using assms by (intro slice_page) auto
  then show ?thesis using assms
    by (simp add: paginate_def newArray_def Let_def)
qed

lemma filters_compose:
  assumes "getAllProducts P now s = (Inr a, s0)"
    and "filterSearch P f a s0 = (b1, s1)"
    and "filterCategory P f b1 s1 = (b2, s2)"
    and "filterActive f b2 s2 = (b3, s3)"
  shows "arrays s3 b3 = filter (\<lambda>r. passesFilters P f (objects s0 r)) (arrays s0 a)
         \<and> objects s3 = objects s0 \<and> b3 < fresh s3 \<and> fresh s0 \<le> fresh s3
         \<and> cache s3 = cache s0 \<and> cacheTimestamp s3 = cacheTimestamp s0
         \<and> (\<forall>c<fresh s0. arrays s3 c = arrays s0 c) \<and> (b3 = a \<or> fresh s0 \<le> b3)"
proof -
  have a: "a < fresh s0" using getAllProducts_post [OF assms(1)] by simp
  note 1 = filterSearch_post [OF assms(2) a]
  then have b1: "b1 < fresh s1" by simp
  note 2 = filterCategory_post [OF assms(3) b1]
  then have b2: "b2 < fresh s2" by simp
  note 3 = filterActive_post [OF assms(4) b2]
  have o: "objects s1 = objects s0" "objects s2 = objects s0" "objects s3 = objects s0"
    using 1 2 3 by simp_all
  have f: "fresh s0 \<le> fresh s1" "fresh s1 \<le> fresh s2" "fresh s2 \<le> fresh s3"
    using 1 2 3 by simp_all
  have e1: "arrays s1 b1 =
           filter (\<lambda>r. case search_f f of None \<Rightarrow> True
                       | Some q \<Rightarrow> q = [] \<or> matchesSearch P (toLowerCase P q) (objects s0 r))
             (arrays s0 a)"
    using 1 by blast
  have e2: "arrays s2 b2 =
           filter (\<lambda>r. case category_f f of None \<Rightarrow> True
                       | Some c \<Rightarrow> c = [] \<or> toLowerCase P (category (objects s0 r)) = toLowerCase P c)
             (arrays s1 b1)"
    using 2 unfolding o by blast
  have e3: "arrays s3 b3 =
           filter (\<lambda>r. case isActive_f f of None \<Rightarrow> True | Some v \<Rightarrow> isActive (objects s0 r) = v)
             (arrays s2 b2)"
    using 3 unfolding o by blast
  have "arrays s3 b3 = filter (\<lambda>r. passesFilters P f (objects s0 r)) (arrays s0 a)"
    unfolding e3 e2 e1 filter_filter passesFilters_def by (simp add: conj_ac)
  moreover note o(3)
  moreover have "b3 < fresh s3" using 3 by blast
  moreover have "fresh s0 \<le> fresh s3" using f by linarith
  moreover have "cache s3 = cache s0 \<and> cacheTimestamp s3 = cacheTimestamp s0"
  proof -
    have "cache s1 = cache s0 \<and> cacheTimestamp s1 = cacheTimestamp s0" using 1 by blast
    moreover have "cache s2 = cache s1 \<and> cacheTimestamp s2 = cacheTimestamp s1" using 2 by blast
    moreover have "cache s3 = cache s2 \<and> cacheTimestamp s3 = cacheTimestamp s2" using 3 by blast
    ultimately show ?thesis by simp
  qed
  moreover have "\<forall>c<fresh s0. arrays s3 c = arrays s0 c"
  proof (intro allI impI)
    fix c assume c: "c < fresh s0"
    then have c': "c < fresh s1" "c < fresh s2" using f by linarith+
    have "arrays s1 c = arrays s0 c" using 1 c by blast
    moreover have "arrays s2 c = arrays s1 c" using 2 c'(1) by blast
    moreover have "arrays s3 c = arrays s2 c" using 3 c'(2) by blast
    ultimately show "arrays s3 c = arrays s0 c" by simp
  qed
  moreover have "b3 = a \<or> fresh s0 \<le> b3"
  proof -
    have "b1 = a \<or> fresh s0 \<le> b1" using 1 by blast
    moreover have "b2 = b1 \<or> fresh s1 \<le> b2" using 2 by blast
    moreover have "b3 = b2 \<or> fresh s2 \<le> b3" using 3 by blast
    ultimately show ?thesis using f by linarith
  qed
  ultimately show ?thesis by blast
qed

lemma ordered_objects: "objects s = objects s' \<Longrightarrow> ordered P f s rs = ordered P f s' rs"
  by (cases "sortBy_f f") (simp_all add: ordered_def)

lemma search_page:
  assumes read: "getAllProducts P now s = (Inr a, s0)"
    and page: "page_f f = Some page" "limit_f f = Some limit" "1 \<le> page" "1 \<le> limit"
  shows "\<exists>b s'. searchProducts P now f s = (Inr (b, int (length (selected P f s0 a))), s')
           \<and> arrays s' b =
               take (nat limit) (drop (nat ((page - 1) * limit)) (ordered P f s0 (selected P f s0 a)))
           \<and> objects s' = objects s0"
proof -
  obtain b1 s1 where 1: "filterSearch P f a s0 = (b1, s1)" by (cases "filterSearch P f a s0")
  obtain b2 s2 where 2: "filterCategory P f b1 s1 = (b2, s2)" by (cases "filterCategory P f b1 s1")
  obtain b3 s3 where 3: "filterActive f b2 s2 = (b3, s3)" by (cases "filterActive f b2 s2")
  note c = filters_compose [OF read 1 2 3]
  let ?s4 = "sortProducts P f b3 s3"
  note s = sortProducts_post [of P f b3 s3]
  have sel: "arrays s3 b3 = selected P f s0 a" using c by (simp add: selected_def)
  have o3: "objects s3 = objects s0" using c by blast
  have a4: "arrays ?s4 b3 = ordered P f s0 (selected P f s0 a)"
    using s sel ordered_objects [OF o3] by simp
  have o4: "objects ?s4 = objects s0" using s o3 by simp
  have t: "int (length (arrays ?s4 b3)) = int (length (selected P f s0 a))"
    unfolding a4 by (simp add: length_ordered)
  note p = paginate_page [OF page, of b3 ?s4]
  have "searchProducts P now f s =
     (Inr (fresh ?s4, int (length (selected P f s0 a))),
      ?s4\<lparr>arrays := (arrays ?s4)(fresh ?s4 :=
                    take (nat limit) (drop (nat ((page - 1) * limit)) (arrays ?s4 b3))),
                fresh := Suc (fresh ?s4)\<rparr>)"
    using read 1 2 3 t by (simp add: searchProducts_def await_def Let_def p)
  then show ?thesis using a4 o4 by simp
qed

text \<open>
  C7. For a page \<open>\<ge> 1\<close> and a limit \<open>\<ge> 1\<close>, \<open>searchProducts\<close> returns as \<open>total\<close> the number
  of records that pass the filters, counted before pagination, and as products the slice
  of the filtered and ordered collection that starts at \<open>(page - 1) * limit\<close> and has at
  most \<open>limit\<close> elements; a slice that starts beyond the end is empty.
\<close>

theorem search_pagination:
  assumes "getAllProducts P now s = (Inr a, s0)"
    and "page_f f = Some page" and "limit_f f = Some limit" and "1 \<le> page" and "1 \<le> limit"
  shows "\<exists>b s'. searchProducts P now f s = (Inr (b, int (length (selected P f s0 a))), s')
           \<and> arrays s' b =
               take (nat limit) (drop (nat ((page - 1) * limit)) (ordered P f s0 (selected P f s0 a)))
           \<and> products_of s' b =
               map (objects s0)
                 (take (nat limit) (drop (nat ((page - 1) * limit)) (ordered P f s0 (selected P f s0 a))))
           \<and> (int (length (selected P f s0 a)) \<le> (page - 1) * limit \<longrightarrow> arrays s' b = [])"
proof -
  from search_page [OF assms] obtain b s' where
    r: "searchProducts P now f s = (Inr (b, int (length (selected P f s0 a))), s')"
    and a: "arrays s' b =
               take (nat limit) (drop (nat ((page - 1) * limit)) (ordered P f s0 (selected P f s0 a)))"
    and o: "objects s' = objects s0" by blast
  have "int (length (selected P f s0 a)) \<le> (page - 1) * limit \<longrightarrow> arrays s' b = []"
    unfolding a by (simp add: length_ordered)
  with r a o show ?thesis by (simp add: products_of_def)
qed

lemma twelveStore_read: "getAllProducts testPlatform 1000 twelveStore = (Inr 13, twelveStoreRead)"
proof -
  have v: "isCacheValid 1000 twelveStore"
    by (simp add: isCacheValid_def twelveStore_def cacheTimeout_def)
  show ?thesis
    unfolding getAllProducts_hit [OF v] by (simp add: twelveStoreRead_def twelveStore_def)
qed

lemma twelve_selected:
  "selected testPlatform (noFilters\<lparr>page_f := Some p, limit_f := Some l\<rparr>) twelveStoreRead 13
     = [1, 2, 3, 4, 5, 6, 7, 8, 9, 10, 11, 12]"
  "ordered testPlatform (noFilters\<lparr>page_f := Some p, limit_f := Some l\<rparr>) twelveStoreRead rs = rs"
  "objects twelveStoreRead = item"
  by (simp_all add: ordered_def selected_def passesFilters_def noFilters_def twelveStoreRead_def
      twelveStore_def)

theorem search_pagination_witness:
  "getAllProducts testPlatform 1000 twelveStore = (Inr 13, twelveStoreRead)
   \<and> length (arrays twelveStoreRead 13) = 12
   \<and> (\<exists>b s'. searchProducts testPlatform 1000 (noFilters\<lparr>page_f := Some 2, limit_f := Some 5\<rparr>)
                  twelveStore = (Inr (b, 12), s')
          \<and> arrays s' b = [6, 7, 8, 9, 10]
          \<and> products_of s' b = [item 6, item 7, item 8, item 9, item 10])
   \<and> (\<exists>b s'. searchProducts testPlatform 1000 (noFilters\<lparr>page_f := Some 3, limit_f := Some 5\<rparr>)
                  twelveStore = (Inr (b, 12), s')
          \<and> arrays s' b = [11, 12]
          \<and> products_of s' b = [item 11, item 12])
   \<and> (\<exists>b s'. searchProducts testPlatform 1000 (noFilters\<lparr>page_f := Some 4, limit_f := Some 5\<rparr>)
                  twelveStore = (Inr (b, 12), s')
          \<and> arrays s' b = [])"
proof -
  have l: "length (arrays twelveStoreRead 13) = 12"
    by (simp add: twelveStoreRead_def twelveStore_def)
  have 2: "\<exists>b s'. searchProducts testPlatform 1000 (noFilters\<lparr>page_f := Some 2, limit_f := Some 5\<rparr>)
                  twelveStore = (Inr (b, 12), s')
          \<and> arrays s' b = [6, 7, 8, 9, 10]
          \<and> products_of s' b = [item 6, item 7, item 8, item 9, item 10]"
    using search_pagination [OF twelveStore_read,
        of "noFilters\<lparr>page_f := Some 2, limit_f := Some 5\<rparr>" 2 5]
    by (simp add: twelve_selected)
  have 3: "\<exists>b s'. searchProducts testPlatform 1000 (noFilters\<lparr>page_f := Some 3, limit_f := Some 5\<rparr>)
                  twelveStore = (Inr (b, 12), s')
          \<and> arrays s' b = [11, 12]
          \<and> products_of s' b = [item 11, item 12]"
    using search_pagination [OF twelveStore_read,
        of "noFilters\<lparr>page_f := Some 3, limit_f := Some 5\<rparr>" 3 5]
    by (simp add: twelve_selected)
  have 4: "\<exists>b s'. searchProducts testPlatform 1000 (noFilters\<lparr>page_f := Some 4, limit_f := Some 5\<rparr>)
                  twelveStore = (Inr (b, 12), s')
          \<and> arrays s' b = []"
    using search_pagination [OF twelveStore_read,
        of "noFilters\<lparr>page_f := Some 4, limit_f := Some 5\<rparr>" 4 5]
    by (auto simp: twelve_selected)
  from twelveStore_read l 2 3 4 show ?thesis by blast
qed

subsection \<open>Create\<close>

lemma DataService_createProduct_cases:
  assumes "getAllProducts P now t = (Inr b, t1)"
  shows "DataService_createProduct P now pr t =
     (if \<exists>p\<in>set (arrays t1 b). idp (objects t1 p) = idp (objects t1 pr)
      then (Inl (conflict (''Produto com este ID j'' @ a_acute @ '' existe'')), t1)
      else if writable t
      then (Inr pr,
            t1\<lparr>backup := (if primary t1 = None then backup t1 else primary t1),
               primary := Some (JSON_stringify P (map (objects t1) (arrays t1 b @ [pr]))),
               arrays := (arrays t1)(b := arrays t1 b @ [pr], fresh t1 := arrays t1 b @ [pr]),
               fresh := Suc (fresh t1),
               cache := Some (fresh t1),
               cacheTimestamp := now\<rparr>)
      else (Inl (internal ''Falha ao salvar dados''),
            t1\<lparr>arrays := (arrays t1)(b := arrays t1 b @ [pr])\<rparr>))"
proof -
  have w: "writable t1 = writable t" using getAllProducts_post [OF assms] by simp
  show ?thesis
  proof (cases "\<exists>p\<in>set (arrays t1 b). idp (objects t1 p) = idp (objects t1 pr)")
    case True
    then obtain p where "p \<in> set (arrays t1 b)" "idp (objects t1 p) = idp (objects t1 pr)" by blast
    from find_in_set [OF this(1), of "\<lambda>p. idp (objects t1 p) = idp (objects t1 pr)"] this(2)
    obtain y where "find (\<lambda>p. idp (objects t1 p) = idp (objects t1 pr)) (arrays t1 b) = Some y"
      by blast
    with True assms show ?thesis
      by (simp add: DataService_createProduct_def await_def)
  next
    case False
    then have n: "find (\<lambda>p. idp (objects t1 p) = idp (objects t1 pr)) (arrays t1 b) = None"
      by (intro find_none) auto
    show ?thesis
    proof (cases "writable t")
      case True
      with False n assms w show ?thesis
        by (simp add: DataService_createProduct_def await_def writeToFile_ok products_of_def)
    next
      case nw: False
      with False n assms w show ?thesis
        by (simp add: DataService_createProduct_def await_def writeToFile_fail)
    qed
  qed
qed

lemma validateProductName_cases:
  assumes "getAllProducts P now s = (Inr a, s1)"
  shows "validateProductName P now n x s =
     (if \<exists>r\<in>set (arrays s1 a). toLowerCase P (name (objects s1 r)) = toLowerCase P n
            \<and> Some (idp (objects s1 r)) \<noteq> x
      then (Inl (conflict (''J'' @ a_acute @ '' existe um produto com este nome'')), s1)
      else (Inr (), s1))"
proof (cases "\<exists>r\<in>set (arrays s1 a). toLowerCase P (name (objects s1 r)) = toLowerCase P n
            \<and> Some (idp (objects s1 r)) \<noteq> x")
  case True
  then obtain r where "r \<in> set (arrays s1 a)"
    "toLowerCase P (name (objects s1 r)) = toLowerCase P n" "Some (idp (objects s1 r)) \<noteq> x"
    by blast
  from validateProductName_duplicate [OF assms this] True show ?thesis by simp
next
  case False
  then have "\<forall>r\<in>set (arrays s1 a). toLowerCase P (name (objects s1 r)) = toLowerCase P n
            \<longrightarrow> Some (idp (objects s1 r)) = x" by blast
  from validateProductName_unique [OF assms this] False show ?thesis by simp
qed

text \<open>The state in which \<open>DataService.createProduct\<close> reads the collection.\<close>

lemma create_read:
  assumes "getAllProducts P now s = (Inr a, s0)"
  shows "getAllProducts P now (s0\<lparr>objects := (objects s0)(fresh s0 := p), fresh := Suc (fresh s0)\<rparr>) =
     (Inr (Suc (fresh s0)),
      s0\<lparr>objects := (objects s0)(fresh s0 := p),
         arrays := (arrays s0)(Suc (fresh s0) := arrays s0 a),
         fresh := Suc (Suc (fresh s0))\<rparr>)"
proof -
  note p = getAllProducts_post [OF assms]
  have "isCacheValid now (s0\<lparr>objects := (objects s0)(fresh s0 := p), fresh := Suc (fresh s0)\<rparr>)"
    using p by (simp add: isCacheValid_def)
  from getAllProducts_hit [OF this] p show ?thesis by simp
qed

lemma create_unfold:
  assumes read: "getAllProducts P now s = (Inr a, s0)"
  shows "ProductService_createProduct P now uuid d s =
     (if \<exists>x\<in>set (arrays s0 a). toLowerCase P (name (objects s0 x)) = toLowerCase P (name_c d)
      then (Inl (conflict (''J'' @ a_acute @ '' existe um produto com este nome'')), s0)
      else if price_c d \<le> 0
      then (Inl (badRequest (''Pre'' @ c_cedilla @ ''o deve ser maior que zero'')), s0)
      else if price_c d > 99999999 / 100
      then (Inl (badRequest (''Pre'' @ c_cedilla @ ''o n'' @ a_tilde @ ''o pode exceder R$ 999.999,99'')), s0)
      else if stock_c d < 0
      then (Inl (badRequest (''Estoque n'' @ a_tilde @ ''o pode ser negativo'')), s0)
      else if \<not> Number_isInteger (stock_c d)
      then (Inl (badRequest (''Estoque deve ser um n'' @ u_acute @ ''mero inteiro'')), s0)
      else DataService_createProduct P now (fresh s0)
             (s0\<lparr>objects := (objects s0)(fresh s0 := buildProduct uuid d (toISOString P now)),
                fresh := Suc (fresh s0)\<rparr>))"
  unfolding ProductService_createProduct_def await_def validateProductName_cases [OF read]
  by (simp add: validateProductPrice_def validateProductStock_def newObject_def
      DataService_createProduct_def await_def split: prod.splits sum.splits)

lemma create_write:
  assumes wf: "wf_heap s" and read: "getAllProducts P now s = (Inr a, s0)"
  shows "DataService_createProduct P now (fresh s0)
             (s0\<lparr>objects := (objects s0)(fresh s0 := buildProduct uuid d (toISOString P now)),
                fresh := Suc (fresh s0)\<rparr>) = (Inr r, s')
         \<longleftrightarrow> uuid \<notin> idp ` set (products_of s0 a) \<and> writable s \<and> r = fresh s0
             \<and> s' = s0\<lparr>objects := (objects s0)(fresh s0 := buildProduct uuid d (toISOString P now)),
                  backup := (if primary s0 = None then backup s0 else primary s0),
                  primary := Some (JSON_stringify P
                     (map ((objects s0)(fresh s0 := buildProduct uuid d (toISOString P now)))
                        (arrays s0 a @ [fresh s0]))),
                  arrays := (arrays s0)(Suc (fresh s0) := arrays s0 a @ [fresh s0],
                                        Suc (Suc (fresh s0)) := arrays s0 a @ [fresh s0]),
                  fresh := Suc (Suc (Suc (fresh s0))),
                  cache := Some (Suc (Suc (fresh s0))),
                  cacheTimestamp := now\<rparr>"
proof -
  let ?p = "buildProduct uuid d (toISOString P now)"
  note post = getAllProducts_post [OF read]
  have old: "\<forall>x\<in>set (arrays s0 a). x < fresh s0" using post wf by blast
  have same: "\<And>x. x \<in> set (arrays s0 a) \<Longrightarrow> ((objects s0)(fresh s0 := ?p)) x = objects s0 x"
    using old by auto
  have ids: "(\<exists>x\<in>set (arrays s0 a). idp (((objects s0)(fresh s0 := ?p)) x) = uuid)
      \<longleftrightarrow> uuid \<in> idp ` set (products_of s0 a)"
  proof
    assume "\<exists>x\<in>set (arrays s0 a). idp (((objects s0)(fresh s0 := ?p)) x) = uuid"
    then obtain x where x: "x \<in> set (arrays s0 a)" "idp (((objects s0)(fresh s0 := ?p)) x) = uuid"
      by blast
    with same have "idp (objects s0 x) = uuid" by simp
    with x(1) show "uuid \<in> idp ` set (products_of s0 a)"
      by (force simp: products_of_def)
  next
    assume "uuid \<in> idp ` set (products_of s0 a)"
    then obtain x where x: "x \<in> set (arrays s0 a)" "idp (objects s0 x) = uuid"
      by (auto simp: products_of_def)
    with same have "idp (((objects s0)(fresh s0 := ?p)) x) = uuid" by simp
    with x(1) show "\<exists>x\<in>set (arrays s0 a). idp (((objects s0)(fresh s0 := ?p)) x) = uuid"
      by blast
  qed
  have i: "idp ?p = uuid" by (simp add: buildProduct_def)
  have w: "writable s0 = writable s" using post by simp
  show ?thesis
    unfolding DataService_createProduct_cases [OF create_read [OF read, of ?p], of "fresh s0"]
    using ids by (auto simp: i w)
qed

text \<open>
  C8. On a well-formed heap, a product that \<open>createProduct\<close> returns has a stock \<open>\<ge> 0\<close>, a
  price in \<open>(0, 999999.99]\<close>, the generated id, which is the id of no product of the
  collection read before, both timestamps equal to the current time, and the defaults
  \<open>isActive = true\<close> and \<open>tags = []\<close> when the input has none. And \<open>createProduct\<close> does return
  a product when the name is new, price and stock are in range, the generated id is new
  and the store is writable.
\<close>

theorem create_result:
  assumes "wf_heap s" and "getAllProducts P now s = (Inr a, s0)"
  shows "(ProductService_createProduct P now uuid d s = (Inr r, s') \<longrightarrow>
            0 \<le> stock (objects s' r) \<and> 0 < price (objects s' r)
            \<and> price (objects s' r) \<le> 99999999 / 100
            \<and> idp (objects s' r) = uuid \<and> uuid \<notin> idp ` set (products_of s0 a)
            \<and> createdAt (objects s' r) = toISOString P now
            \<and> updatedAt (objects s' r) = toISOString P now
            \<and> (isActive_c d = None \<longrightarrow> isActive (objects s' r))
            \<and> (tags_c d = None \<longrightarrow> tags (objects s' r) = Some []))
         \<and> ((\<forall>p\<in>set (products_of s0 a). toLowerCase P (name p) \<noteq> toLowerCase P (name_c d))
             \<and> 0 < price_c d \<and> price_c d \<le> 99999999 / 100
             \<and> 0 \<le> stock_c d \<and> Number_isInteger (stock_c d)
             \<and> uuid \<notin> idp ` set (products_of s0 a) \<and> writable s
            \<longrightarrow> (\<exists>r s'. ProductService_createProduct P now uuid d s = (Inr r, s')))"
proof (intro conjI impI)
  assume c: "ProductService_createProduct P now uuid d s = (Inr r, s')"
  let ?p = "buildProduct uuid d (toISOString P now)"
  let ?t = "s0\<lparr>objects := (objects s0)(fresh s0 := ?p), fresh := Suc (fresh s0)\<rparr>"
  from c have v: "0 < price_c d" "price_c d \<le> 99999999 / 100" "0 \<le> stock_c d"
    and dc: "DataService_createProduct P now (fresh s0) ?t = (Inr r, s')"
    unfolding create_unfold [OF assms(2)] by (auto split: if_splits)
  from dc have u: "uuid \<notin> idp ` set (products_of s0 a)" and o: "objects s' r = ?p"
    unfolding create_write [OF assms] by auto
  show "0 \<le> stock (objects s' r)" "0 < price (objects s' r)"
    "price (objects s' r) \<le> 99999999 / 100" "idp (objects s' r) = uuid"
    "createdAt (objects s' r) = toISOString P now" "updatedAt (objects s' r) = toISOString P now"
    "isActive_c d = None \<Longrightarrow> isActive (objects s' r)"
    "tags_c d = None \<Longrightarrow> tags (objects s' r) = Some []"
    unfolding o using v by (simp_all add: buildProduct_def)
  show "uuid \<notin> idp ` set (products_of s0 a)" by (rule u)
next
  assume h: "(\<forall>p\<in>set (products_of s0 a). toLowerCase P (name p) \<noteq> toLowerCase P (name_c d))
             \<and> 0 < price_c d \<and> price_c d \<le> 99999999 / 100
             \<and> 0 \<le> stock_c d \<and> Number_isInteger (stock_c d)
             \<and> uuid \<notin> idp ` set (products_of s0 a) \<and> writable s"
  then have "\<not> (\<exists>x\<in>set (arrays s0 a). toLowerCase P (name (objects s0 x)) = toLowerCase P (name_c d))"
    by (auto simp: products_of_def)
  then show "\<exists>r s'. ProductService_createProduct P now uuid d s = (Inr r, s')"
    unfolding create_unfold [OF assms(2)] using h
    by (simp add: create_write [OF assms])
qed

lemma cachedStore_wf: "wf_heap cachedStore"
  by (simp add: wf_heap_iff cachedStore_def)

lemma webcam_input:
  "(\<forall>p\<in>set (products_of cachedStoreRead 3).
       toLowerCase testPlatform (name p) \<noteq> toLowerCase testPlatform (name_c (createNamed ''Webcam'')))
   \<and> 0 < price_c (createNamed ''Webcam'') \<and> price_c (createNamed ''Webcam'') \<le> 99999999 / 100
   \<and> 0 \<le> stock_c (createNamed ''Webcam'') \<and> Number_isInteger (stock_c (createNamed ''Webcam''))
   \<and> ''id-9'' \<notin> idp ` set (products_of cachedStoreRead 3) \<and> writable cachedStore"
  by (simp add: products_of_def cachedStoreRead_simps concrete_fields lower_simps
      createNamed_def Number_isInteger_def testPlatform_def asciiLower_def)

theorem create_result_witness:
  "wf_heap cachedStore \<and> getAllProducts testPlatform 1000 cachedStore = (Inr 3, cachedStoreRead)
   \<and> isActive_c (createNamed ''Webcam'') = None \<and> tags_c (createNamed ''Webcam'') = None
   \<and> (\<exists>r s'. ProductService_createProduct testPlatform 1000 ''id-9'' (createNamed ''Webcam'')
                 cachedStore = (Inr r, s')
          \<and> 0 \<le> stock (objects s' r) \<and> 0 < price (objects s' r)
          \<and> price (objects s' r) \<le> 99999999 / 100
          \<and> idp (objects s' r) = ''id-9''
          \<and> ''id-9'' \<notin> idp ` set (products_of cachedStoreRead 3)
          \<and> createdAt (objects s' r) = ''2024-06-01T12:00:00.000Z''
          \<and> updatedAt (objects s' r) = ''2024-06-01T12:00:00.000Z''
          \<and> isActive (objects s' r) \<and> tags (objects s' r) = Some [])"
proof -
  note t = create_result [OF cachedStore_wf cachedStore_read, of "''id-9''" "createNamed ''Webcam''"]
  from t [THEN conjunct2, THEN mp, OF webcam_input]
  obtain r s' where c: "ProductService_createProduct testPlatform 1000 ''id-9'' (createNamed ''Webcam'')
                 cachedStore = (Inr r, s')" by blast
  have d: "isActive_c (createNamed ''Webcam'') = None" "tags_c (createNamed ''Webcam'') = None"
    "toISOString testPlatform 1000 = ''2024-06-01T12:00:00.000Z''"
    by (simp_all add: createNamed_def testPlatform_def)
  from t [of r s', THEN conjunct1, THEN mp, OF c] c d cachedStore_wf cachedStore_read
  show ?thesis by auto
qed

subsection \<open>Binary64 rounding\<close>

lemma powi_less_imp: "(2::rat) powi m < 2 powi n \<Longrightarrow> m < n"
proof (rule ccontr)
  assume l: "(2::rat) powi m < 2 powi n" and "\<not> m < n"
  then have "n \<le> m" by simp
  then have "(2::rat) powi n \<le> 2 powi m" by (intro power_int_increasing) simp_all
  with l show False by simp
qed

lemma powi_nat: "0 \<le> k \<Longrightarrow> (2::rat) powi k = 2 ^ nat k"
  by (simp add: power_int_def)

lemma binade_bounds:
  assumes "x \<noteq> 0"
  shows "2 powi binade x \<le> \<bar>x\<bar> \<and> \<bar>x\<bar> < 2 powi (binade x + 1)"
proof -
  obtain a b where q: "quotient_of \<bar>x\<bar> = (a, b)" by (cases "quotient_of \<bar>x\<bar>")
  have b: "0 < b" using quotient_of_denom_pos [OF q] .
  have x: "\<bar>x\<bar> = of_int a / of_int b" using quotient_of_div [OF q] .
  have "0 < \<bar>x\<bar>" using assms by simp
  then have "0 < (of_int a :: rat)" unfolding x using b by (simp add: zero_less_divide_iff)
  then have a: "0 < a" by simp
  let ?la = "bitlen a" and ?lb = "bitlen b"
  note ba = bitlen_bounds [OF a] and bb = bitlen_bounds [OF b]
  have la: "1 \<le> ?la" using a by (simp add: bitlen_alt_def)
  have lb: "1 \<le> ?lb" using b by (simp add: bitlen_alt_def)
  have a_lo: "(2::rat) powi (?la - 1) \<le> of_int a"
  proof -
    have "(of_int (2 ^ nat (?la - 1)) :: rat) \<le> of_int a" using ba by (simp only: of_int_le_iff)
    then show ?thesis using la by (simp add: powi_nat)
  qed
  have a_hi: "of_int a < (2::rat) powi ?la"
  proof -
    have "(of_int a :: rat) < of_int (2 ^ nat ?la)" using ba by (simp only: of_int_less_iff)
    then show ?thesis using la by (simp add: powi_nat)
  qed
  have b_lo: "(2::rat) powi (?lb - 1) \<le> of_int b"
  proof -
    have "(of_int (2 ^ nat (?lb - 1)) :: rat) \<le> of_int b" using bb by (simp only: of_int_le_iff)
    then show ?thesis using lb by (simp add: powi_nat)
  qed
  have b_hi: "of_int b < (2::rat) powi ?lb"
  proof -
    have "(of_int b :: rat) < of_int (2 ^ nat ?lb)" using bb by (simp only: of_int_less_iff)
    then show ?thesis using lb by (simp add: powi_nat)
  qed
  let ?d = "?la - ?lb"
  have bpos: "0 < (of_int b :: rat)" using b by simp
  have apos: "0 < (of_int a :: rat)" using a by simp
  have up: "\<bar>x\<bar> < 2 powi (?d + 1)"
  proof -
    have "(2::rat) powi (?d + 1) = 2 powi ?la / 2 powi (?lb - 1)"
      using power_int_diff [of "2::rat" ?la "?lb - 1"] by (simp add: algebra_simps)
    moreover have "of_int a / of_int b < (2::rat) powi ?la / 2 powi (?lb - 1)"
      using a_hi b_lo bpos apos by (intro frac_less) simp_all
    ultimately show ?thesis unfolding x by simp
  qed
  have low: "2 powi (?d - 1) < \<bar>x\<bar>"
  proof -
    have "(2::rat) powi (?d - 1) = 2 powi (?la - 1) / 2 powi ?lb"
      using power_int_diff [of "2::rat" "?la - 1" ?lb] by (simp add: algebra_simps)
    moreover have "(2::rat) powi (?la - 1) / 2 powi ?lb < of_int a / of_int b"
      using a_lo b_hi bpos by (intro frac_less2) simp_all
    ultimately show ?thesis unfolding x by simp
  qed
  show ?thesis
  proof (cases "2 powi ?d \<le> \<bar>x\<bar>")
    case True
    then have "binade x = ?d" by (simp add: binade_def q)
    with True up show ?thesis by simp
  next
    case False
    then have "binade x = ?d - 1" by (simp add: binade_def q)
    with False low show ?thesis by simp
  qed
qed

lemma binade_unique:
  assumes "2 powi e \<le> \<bar>x\<bar>" and "\<bar>x\<bar> < 2 powi (e + 1)"
  shows "binade x = e"
proof -
  have "0 < (2::rat) powi e" by simp
  with assms(1) have "0 < \<bar>x\<bar>" by linarith
  then have "x \<noteq> 0" by simp
  note b = binade_bounds [OF this]
  from assms(1) b have "(2::rat) powi e < 2 powi (binade x + 1)" by linarith
  then have 1: "e < binade x + 1" by (rule powi_less_imp)
  from assms(2) b have "(2::rat) powi binade x < 2 powi (e + 1)" by linarith
  then have 2: "binade x < e + 1" by (rule powi_less_imp)
  from 1 2 show ?thesis by simp
qed

lemma roundTiesToEven_error: "\<bar>of_int (roundTiesToEven y) - y\<bar> \<le> 1 / 2"
proof -
  have "of_int \<lfloor>y\<rfloor> \<le> y" "y < of_int \<lfloor>y\<rfloor> + 1" by linarith+
  then show ?thesis
    by (auto simp: roundTiesToEven_def Let_def abs_le_iff)
qed

lemma roundTiesToEven_near:
  assumes "\<bar>y - of_int m\<bar> < 1 / 2"
  shows "roundTiesToEven y = m"
proof -
  from assms have b: "of_int m - 1 / 2 < y" "y < of_int m + 1 / 2" by linarith+
  have "of_int (m - 1) \<le> y" using b(1) by simp
  then have 1: "m - 1 \<le> \<lfloor>y\<rfloor>" by (simp only: le_floor_iff)
  have "y < of_int (m + 1)" using b(2) by simp
  then have 2: "\<lfloor>y\<rfloor> < m + 1" by (simp only: floor_less_iff)
  from 1 2 have c: "\<lfloor>y\<rfloor> = m \<or> \<lfloor>y\<rfloor> = m - 1" by linarith
  then show ?thesis
  proof
    assume e: "\<lfloor>y\<rfloor> = m"
    with b(2) show ?thesis by (simp add: roundTiesToEven_def Let_def)
  next
    assume e: "\<lfloor>y\<rfloor> = m - 1"
    with b(1) show ?thesis by (simp add: roundTiesToEven_def Let_def)
  qed
qed

lemma roundTiesToEven_tie:
  assumes "y = of_int m + 1 / 2" and "even m"
  shows "roundTiesToEven y = m"
proof -
  have "\<lfloor>y\<rfloor> = m" unfolding assms(1) by (rule floor_unique) simp_all
  then show ?thesis using assms by (simp add: roundTiesToEven_def Let_def)
qed

lemma roundTiesToEven_int [simp]: "roundTiesToEven (of_int m) = m"
  by (rule roundTiesToEven_near) simp

lemma two_powi_1024: "(2::rat) powi 1024 = 2 * 2 powi 1023"
  using power_int_add_1' [of "2::rat" 1023] by simp

lemma toNumber_eval:
  assumes "2 powi e \<le> \<bar>x\<bar>" and "\<bar>x\<bar> < 2 powi (e + 1)" and "- 1022 \<le> e"
    and "roundTiesToEven (x / 2 powi (e - 52)) = m"
    and "\<bar>2 powi (e - 52) * of_int m\<bar> < (2::rat) powi 1024"
  shows "toNumber x = Finite (2 powi (e - 52) * of_int m)"
proof -
  have "0 < (2::rat) powi e" by simp
  with assms(1) have "0 < \<bar>x\<bar>" by linarith
  then have x: "x \<noteq> 0" by simp
  have b: "binade x = e" using assms(1,2) by (rule binade_unique)
  have "max e (- 1022) = e" using assms(3) by simp
  then show ?thesis using x assms(4,5)
    by (simp add: toNumber_def b Let_def)
qed

text \<open>In the range of the normal numbers, rounding has a relative error of at most one unit roundoff.\<close>

lemma toNumber_normal:
  assumes lo: "2 powi (- 1022) \<le> \<bar>x\<bar>" and hi: "\<bar>x\<bar> < 2 powi 1023"
  shows "\<exists>r. toNumber x = Finite r \<and> \<bar>r - x\<bar> \<le> \<bar>x\<bar> * unitRoundoff"
proof -
  have "0 < (2::rat) powi (- 1022)" by (rule zero_less_power_int) simp
  with lo have "0 < \<bar>x\<bar>" by linarith
  then have x: "x \<noteq> 0" by simp
  let ?e = "binade x"
  note b = binade_bounds [OF x]
  from lo b have "(2::rat) powi (- 1022) < 2 powi (?e + 1)" by linarith
  then have "- 1022 < ?e + 1" by (rule powi_less_imp)
  then have e: "- 1022 \<le> ?e" by simp
  let ?q = "(2::rat) powi (?e - 52)"
  let ?m = "roundTiesToEven (x / ?q)"
  let ?r = "?q * of_int ?m"
  have q: "0 < ?q" by simp
  have "\<bar>?r - x\<bar> = ?q * \<bar>of_int ?m - x / ?q\<bar>"
  proof -
    have "?r - x = ?q * (of_int ?m - x / ?q)" using q by (simp add: algebra_simps)
    then show ?thesis using q by (simp add: abs_mult)
  qed
  also have "\<dots> \<le> ?q * (1 / 2)"
    using roundTiesToEven_error [of "x / ?q"] q by (intro mult_left_mono) simp_all
  also have "\<dots> = 2 powi ?e * unitRoundoff"
  proof -
    have "?q = 2 powi ?e / 2 powi 52" by (rule power_int_diff) simp
    then show ?thesis by (simp add: unitRoundoff_def)
  qed
  also have "\<dots> \<le> \<bar>x\<bar> * unitRoundoff"
    using b by (intro mult_right_mono) (simp_all add: unitRoundoff_def)
  finally have err: "\<bar>?r - x\<bar> \<le> \<bar>x\<bar> * unitRoundoff" .
  have "\<bar>x\<bar> * unitRoundoff \<le> \<bar>x\<bar>" by (simp add: unitRoundoff_def mult_le_cancel_left1)
  with err have "\<bar>?r\<bar> \<le> 2 * \<bar>x\<bar>" by linarith
  with hi have "\<bar>?r\<bar> < 2 powi 1024" unfolding two_powi_1024 by linarith
  moreover have "max ?e (- 1022) = ?e" using e by simp
  ultimately have "toNumber x = Finite ?r" using x
    by (simp add: toNumber_def Let_def)
  with err show ?thesis by blast
qed

subsection \<open>Accumulated rounding errors\<close>

lemma pow_one_plus:
  fixes u :: rat
  assumes "0 \<le> u" and "of_nat m * u \<le> 1 / 2"
  shows "(1 + u) ^ m \<le> 1 + 2 * of_nat m * u"
proof -
  have step: "(1 + u) ^ k * (1 - of_nat k * u) \<le> 1" for k
  proof (induction k)
    case 0
    show ?case by simp
  next
    case (Suc k)
    have "(1 + u) * (1 - of_nat (Suc k) * u) = 1 - of_nat k * u - of_nat (Suc k) * u * u"
      by (simp add: algebra_simps)
    also have "\<dots> \<le> 1 - of_nat k * u"
      using assms(1) by simp
    finally have "(1 + u) * (1 - of_nat (Suc k) * u) \<le> 1 - of_nat k * u" .
    moreover have "0 \<le> (1 + u) ^ k" using assms(1) by simp
    ultimately have "(1 + u) ^ k * ((1 + u) * (1 - of_nat (Suc k) * u))
        \<le> (1 + u) ^ k * (1 - of_nat k * u)"
      by (rule mult_left_mono)
    with Suc.IH have "(1 + u) ^ k * ((1 + u) * (1 - of_nat (Suc k) * u)) \<le> 1" by linarith
    then show ?case by (simp only: power_Suc2 mult.assoc)
  qed
  let ?t = "of_nat m * u"
  have t: "0 \<le> ?t" using assms(1) by simp
  have "1 \<le> (1 + 2 * ?t) * (1 - ?t)"
  proof -
    have "(1 + 2 * ?t) * (1 - ?t) = 1 + ?t * (1 - 2 * ?t)" by (simp add: algebra_simps)
    moreover have "0 \<le> ?t * (1 - 2 * ?t)"
    proof -
      have "0 \<le> 1 - 2 * ?t" using assms(2) by simp
      with t show ?thesis by (rule mult_nonneg_nonneg)
    qed
    ultimately show ?thesis by simp
  qed
  with step [of m] have "(1 + u) ^ m * (1 - ?t) \<le> (1 + 2 * ?t) * (1 - ?t)" by linarith
  moreover have "0 < 1 - ?t" using assms(2) by simp
  ultimately have "(1 + u) ^ m \<le> 1 + 2 * ?t" by (simp only: mult_le_cancel_right_pos)
  then show ?thesis by (simp add: mult.assoc)
qed

lemma pow_one_minus:
  fixes u :: rat
  assumes "0 \<le> u" and "u \<le> 1"
  shows "1 - of_nat m * u \<le> (1 - u) ^ m"
proof (induction m)
  case 0
  show ?case by simp
next
  case (Suc m)
  have "1 - of_nat (Suc m) * u \<le> (1 - u) * (1 - of_nat m * u)"
  proof -
    have "(1 - u) * (1 - of_nat m * u) = 1 - of_nat (Suc m) * u + of_nat m * u * u"
      by (simp add: algebra_simps)
    moreover have "0 \<le> of_nat m * u * u" using assms(1) by simp
    ultimately show ?thesis by simp
  qed
  also have "\<dots> \<le> (1 - u) * (1 - u) ^ m"
    using Suc.IH assms(2) by (intro mult_left_mono) simp_all
  finally show ?case by simp
qed

lemma roundoff_facts:
  "0 < unitRoundoff" "unitRoundoff \<le> 1"
  "of_nat m \<le> (2::rat) ^ 20 \<Longrightarrow> of_nat m * unitRoundoff \<le> 1 / 2 ^ 33"
proof -
  show "0 < unitRoundoff" "unitRoundoff \<le> 1" by (simp_all add: unitRoundoff_def)
  assume "of_nat m \<le> (2::rat) ^ 20"
  then have "of_nat m * unitRoundoff \<le> 2 ^ 20 * unitRoundoff"
    by (intro mult_right_mono) (simp_all add: unitRoundoff_def)
  also have "\<dots> = 1 / 2 ^ 33" by (simp add: unitRoundoff_def)
  finally show "of_nat m * unitRoundoff \<le> 1 / 2 ^ 33" .
qed

text \<open>For \<open>m \<le> 2\<^sup>2\<^sup>0\<close> the factors \<open>(1 \<plusminus> u)\<^sup>m\<close> stay within \<open>2\<^sup>-\<^sup>3\<^sup>2\<close> of 1.\<close>

lemma factor_bounds:
  assumes "of_nat m \<le> (2::rat) ^ 20"
  shows "1 - 1 / 2 ^ 33 \<le> (1 - unitRoundoff) ^ m" and "(1 - unitRoundoff) ^ m \<le> 1"
    and "1 \<le> (1 + unitRoundoff) ^ m" and "(1 + unitRoundoff) ^ m \<le> 1 + 1 / 2 ^ 32"
proof -
  note r = roundoff_facts(1,2) roundoff_facts(3) [OF assms]
  have "1 - of_nat m * unitRoundoff \<le> (1 - unitRoundoff) ^ m"
    using r by (intro pow_one_minus) simp_all
  with r(3) show "1 - 1 / 2 ^ 33 \<le> (1 - unitRoundoff) ^ m" by linarith
  show "(1 - unitRoundoff) ^ m \<le> 1" using r by (intro power_le_one) simp_all
  show "1 \<le> (1 + unitRoundoff) ^ m" using r by (intro one_le_power) simp_all
  have "of_nat m * unitRoundoff \<le> 1 / 2" using r(3) by simp
  then have "(1 + unitRoundoff) ^ m \<le> 1 + 2 * of_nat m * unitRoundoff"
    using r by (intro pow_one_plus) simp_all
  moreover have "2 * of_nat m * unitRoundoff \<le> 1 / 2 ^ 32" using r(3) by simp
  ultimately show "(1 + unitRoundoff) ^ m \<le> 1 + 1 / 2 ^ 32" by linarith
qed

lemma toNumber_middle:
  assumes "1 / 400 \<le> x" and "x \<le> 2 ^ 50"
  shows "\<exists>r. toNumber x = Finite r \<and> x * (1 - unitRoundoff) \<le> r \<and> r \<le> x * (1 + unitRoundoff)"
proof -
  have x: "0 < x" using assms(1) by simp
  have "(2::rat) powi (- 1022) \<le> 2 powi (- 9)" by (intro power_int_increasing) simp_all
  also have "\<dots> \<le> 1 / 400" by (simp add: power_int_minus)
  finally have lo: "2 powi (- 1022) \<le> \<bar>x\<bar>" using assms(1) x by simp
  have "(2::rat) powi 51 \<le> 2 powi 1023" by (intro power_int_increasing) simp_all
  moreover have "(2::rat) ^ 50 < 2 powi 51" by simp
  ultimately have hi: "\<bar>x\<bar> < 2 powi 1023" using assms(2) x by simp
  from toNumber_normal [OF lo hi] obtain r where
    r: "toNumber x = Finite r" and e: "\<bar>r - x\<bar> \<le> \<bar>x\<bar> * unitRoundoff" by blast
  from e x have "x - x * unitRoundoff \<le> r" "r \<le> x + x * unitRoundoff" by (simp_all add: abs_le_iff)
  then have "x * (1 - unitRoundoff) \<le> r" "r \<le> x * (1 + unitRoundoff)"
    by (simp_all add: algebra_simps)
  with r show ?thesis by blast
qed

lemma floatSum_bound:
  fixes ps :: "product list"
  assumes "\<forall>p\<in>set ps. 1 / 100 \<le> price p \<and> price p \<le> 99999999 / 100"
    and "0 \<le> A" and "A \<le> of_nat k * (99999999 / 100)"
    and "A * (1 - unitRoundoff) ^ k \<le> a" and "a \<le> A * (1 + unitRoundoff) ^ k"
    and "k + length ps \<le> 2 ^ 20"
  shows "\<exists>s. foldl (\<lambda>sum product. Number_plus sum (price product)) (Finite a) ps = Finite s
           \<and> (A + sum_list (map price ps)) * (1 - unitRoundoff) ^ (k + length ps) \<le> s
           \<and> s \<le> (A + sum_list (map price ps)) * (1 + unitRoundoff) ^ (k + length ps)"
  using assms
proof (induction ps arbitrary: a A k)
  case Nil
  then show ?case by simp
next
  case (Cons p ps)
  let ?u = unitRoundoff
  let ?L = "(1 - ?u) ^ k" and ?U = "(1 + ?u) ^ k"
  let ?p = "price p"
  have p: "1 / 100 \<le> ?p" "?p \<le> 99999999 / 100" using Cons.prems(1) by simp_all
  have kn: "k \<le> 2 ^ 20" using Cons.prems(6) by simp
  then have "(of_nat k :: rat) \<le> of_nat (2 ^ 20)" by (simp only: of_nat_le_iff)
  then have k: "(of_nat k :: rat) \<le> 2 ^ 20" by simp
  note f = factor_bounds [OF k]
  note u = roundoff_facts(1,2)
  have L0: "0 \<le> ?L" using f(1) by simp
  have a0: "0 \<le> a"
  proof -
    have "0 \<le> A * ?L" using Cons.prems(2) L0 by (rule mult_nonneg_nonneg)
    with Cons.prems(4) show ?thesis by linarith
  qed
  have aU: "a \<le> 2 ^ 49"
  proof -
    have "A * ?U \<le> (of_nat k * (99999999 / 100)) * (1 + 1 / 2 ^ 32)"
      using Cons.prems(2,3) f(3,4) by (intro mult_mono) simp_all
    also have "\<dots> \<le> (2 ^ 20 * (99999999 / 100)) * (1 + 1 / 2 ^ 32)"
      using k by (intro mult_right_mono) simp_all
    also have "\<dots> \<le> 2 ^ 49" by simp
    finally show ?thesis using Cons.prems(5) by linarith
  qed
  have "1 / 400 \<le> a + ?p" using a0 p(1) by linarith
  moreover have "a + ?p \<le> 2 ^ 50" using aU p(2) by simp
  ultimately obtain r where r: "toNumber (a + ?p) = Finite r"
    and lo: "(a + ?p) * (1 - ?u) \<le> r" and hi: "r \<le> (a + ?p) * (1 + ?u)"
    using toNumber_middle by blast
  have p0: "0 \<le> ?p" using p(1) by simp
  have 1: "0 \<le> A + ?p" using Cons.prems(2) p0 by simp
  have 2: "A + ?p \<le> of_nat (Suc k) * (99999999 / 100)"
    using Cons.prems(3) p(2) by (simp add: algebra_simps)
  have 3: "(A + ?p) * (1 - ?u) ^ Suc k \<le> r"
  proof -
    have "?p * ?L \<le> ?p * 1" using f(2) p0 by (rule mult_left_mono)
    then have "A * ?L + ?p * ?L \<le> a + ?p" using Cons.prems(4) by simp
    moreover have "0 \<le> 1 - ?u" using u by simp
    ultimately have "(A * ?L + ?p * ?L) * (1 - ?u) \<le> (a + ?p) * (1 - ?u)"
      by (rule mult_right_mono)
    moreover have "(A + ?p) * (1 - ?u) ^ Suc k = (A * ?L + ?p * ?L) * (1 - ?u)"
      by (simp add: algebra_simps)
    ultimately show ?thesis using lo by linarith
  qed
  have 4: "r \<le> (A + ?p) * (1 + ?u) ^ Suc k"
  proof -
    have "?p * 1 \<le> ?p * ?U" using f(3) p0 by (rule mult_left_mono)
    then have "a + ?p \<le> A * ?U + ?p * ?U" using Cons.prems(5) by simp
    moreover have "0 \<le> 1 + ?u" using u by simp
    ultimately have "(a + ?p) * (1 + ?u) \<le> (A * ?U + ?p * ?U) * (1 + ?u)"
      by (rule mult_right_mono)
    moreover have "(A + ?p) * (1 + ?u) ^ Suc k = (A * ?U + ?p * ?U) * (1 + ?u)"
      by (simp add: algebra_simps)
    ultimately show ?thesis using hi by linarith
  qed
  have 5: "Suc k + length ps \<le> 2 ^ 20" using Cons.prems(6) by simp
  have 6: "\<forall>p\<in>set ps. 1 / 100 \<le> price p \<and> price p \<le> 99999999 / 100"
    using Cons.prems(1) by simp
  from Cons.IH [OF 6 1 2 3 4 5] r show ?case
    by (simp add: add.assoc)
qed

subsection \<open>Statistics\<close>

text \<open>
  The rounding errors of the sum, the quotient and the product of \<open>getStatistics\<close> stay
  within a factor \<open>1 \<plusminus> 2\<^sup>-\<^sup>3\<^sup>1\<close> of the exact mean.
\<close>

lemma sum_price_bounds:
  assumes "\<forall>p\<in>set ps. lo \<le> price p \<and> price p \<le> hi"
  shows "of_nat (length ps) * lo \<le> sum_list (map price ps)
         \<and> sum_list (map price ps) \<le> of_nat (length ps) * hi"
  using assms by (induction ps) (auto simp: algebra_simps)

lemma averagePrice_bound:
  assumes ne: "ps \<noteq> []"
    and prices: "\<forall>p\<in>set ps. 1 / 100 \<le> price p \<and> price p \<le> 99999999 / 100"
    and len: "length ps \<le> 2 ^ 20"
  shows "\<exists>(k::int) r. averagePrice (computeStatistics ps) = Finite r
           \<and> toNumber (of_int k / 100) = Finite r
           \<and> \<bar>r - of_int k / 100\<bar> \<le> of_int k / 100 * unitRoundoff
           \<and> \<bar>of_int k / 100 - meanPrice ps\<bar> \<le> 1 / 200 + meanPrice ps / 2 ^ 31"
proof -
  let ?u = unitRoundoff
  let ?n = "length ps"
  let ?N = "of_nat ?n :: rat"
  let ?S = "sum_list (map price ps)"
  let ?mean = "meanPrice ps"
  have n: "0 < ?n" using ne by simp
  then have "Suc 0 \<le> ?n" by (cases ps) simp_all
  then have "of_nat (Suc 0) \<le> ?N" by (simp only: of_nat_le_iff)
  then have N: "1 \<le> ?N" by simp
  have "?N \<le> of_nat (2 ^ 20)" using len by (simp only: of_nat_le_iff)
  then have N': "?N \<le> 2 ^ 20" by simp
  note f = factor_bounds [OF N']
  note u = roundoff_facts(1,2)
  note sb = sum_price_bounds [OF prices]
  have Npos: "0 < ?N" using N by linarith
  have mean: "1 / 100 \<le> ?mean" "?mean \<le> 99999999 / 100"
  proof -
    have "1 / 100 * ?N \<le> ?S" using sb by (simp only: mult.commute)
    then have "1 / 100 \<le> ?S / ?N" by (simp only: pos_le_divide_eq [OF Npos])
    then show "1 / 100 \<le> ?mean" by (simp only: meanPrice_def)
    have "?S \<le> 99999999 / 100 * ?N" using sb by (simp only: mult.commute)
    then have "?S / ?N \<le> 99999999 / 100" by (simp only: pos_divide_le_eq [OF Npos])
    then show "?mean \<le> 99999999 / 100" by (simp only: meanPrice_def)
  qed
  have m0: "0 \<le> ?mean" using mean(1) by simp
  from floatSum_bound [of ps 0 0 0] prices len obtain s where
    s: "foldl (\<lambda>sum product. Number_plus sum (price product)) (Finite 0) ps = Finite s"
    and s_lo: "?S * (1 - ?u) ^ ?n \<le> s" and s_hi: "s \<le> ?S * (1 + ?u) ^ ?n"
    by auto
  have S0: "0 \<le> ?S" using sb by (simp add: order_trans [rotated])
  have "?S * (1 - 1 / 2 ^ 33) \<le> ?S * (1 - ?u) ^ ?n" using f(1) S0 by (rule mult_left_mono)
  with s_lo have s_lo': "?S * (1 - 1 / 2 ^ 33) \<le> s" by linarith
  have "?S * (1 + ?u) ^ ?n \<le> ?S * (1 + 1 / 2 ^ 32)" using f(4) S0 by (rule mult_left_mono)
  with s_hi have s_hi': "s \<le> ?S * (1 + 1 / 2 ^ 32)" by linarith
  let ?y1 = "s / ?N"
  have y1_lo: "?mean * (1 - 1 / 2 ^ 33) \<le> ?y1"
  proof -
    have "?S * (1 - 1 / 2 ^ 33) / ?N \<le> s / ?N" using s_lo' N by (intro divide_right_mono) simp_all
    then show ?thesis by (simp add: meanPrice_def)
  qed
  have y1_hi: "?y1 \<le> ?mean * (1 + 1 / 2 ^ 32)"
  proof -
    have "s / ?N \<le> ?S * (1 + 1 / 2 ^ 32) / ?N" using s_hi' N by (intro divide_right_mono) simp_all
    then show ?thesis by (simp add: meanPrice_def)
  qed
  have "1 / 400 \<le> ?y1" using y1_lo mean(1) by simp
  moreover have "?y1 \<le> 2 ^ 50" using y1_hi mean(2) by simp
  ultimately obtain m where m: "toNumber ?y1 = Finite m"
    and m_lo: "?y1 * (1 - ?u) \<le> m" and m_hi: "m \<le> ?y1 * (1 + ?u)"
    using toNumber_middle by blast
  have u1: "0 \<le> 1 - ?u" "0 \<le> 1 + ?u" using u by simp_all
  have m_lo': "?mean * (1 - 1 / 2 ^ 33) * (1 - ?u) \<le> m"
  proof -
    have "?mean * (1 - 1 / 2 ^ 33) * (1 - ?u) \<le> ?y1 * (1 - ?u)"
      using y1_lo u1(1) by (rule mult_right_mono)
    with m_lo show ?thesis by linarith
  qed
  have m_hi': "m \<le> ?mean * (1 + 1 / 2 ^ 32) * (1 + ?u)"
  proof -
    have "?y1 * (1 + ?u) \<le> ?mean * (1 + 1 / 2 ^ 32) * (1 + ?u)"
      using y1_hi u1(2) by (rule mult_right_mono)
    with m_hi show ?thesis by linarith
  qed
  let ?y2 = "m * 100"
  have c: "1 / 2 \<le> (1 - 1 / 2 ^ 33) * (1 - ?u)" "(1 + 1 / 2 ^ 32) * (1 + ?u) \<le> 2"
    by (simp_all add: unitRoundoff_def)
  have mlo: "1 / 200 \<le> m"
  proof -
    have A: "?mean * (1 / 2) \<le> ?mean * ((1 - 1 / 2 ^ 33) * (1 - ?u))"
      using c(1) m0 by (rule mult_left_mono)
    have B: "?mean * ((1 - 1 / 2 ^ 33) * (1 - ?u)) \<le> m" using m_lo' by (simp only: mult.assoc)
    have "?mean * (1 / 2) \<le> m" using A B by (rule order_trans)
    then show ?thesis using mean(1) by linarith
  qed
  have mhi: "m \<le> 2 * (99999999 / 100)"
  proof -
    have A: "?mean * ((1 + 1 / 2 ^ 32) * (1 + ?u)) \<le> ?mean * 2"
      using c(2) m0 by (rule mult_left_mono)
    have B: "m \<le> ?mean * ((1 + 1 / 2 ^ 32) * (1 + ?u))" using m_hi' by (simp only: mult.assoc)
    have "m \<le> ?mean * 2" using B A by (rule order_trans)
    then show ?thesis using mean(2) by linarith
  qed
  have "1 / 400 \<le> ?y2" using mlo by simp
  moreover have "?y2 \<le> 2 ^ 50" using mhi by simp
  ultimately obtain x where x: "toNumber ?y2 = Finite x"
    and x_lo: "?y2 * (1 - ?u) \<le> x" and x_hi: "x \<le> ?y2 * (1 + ?u)"
    using toNumber_middle by blast
  have d: "1 - 1 / 2 ^ 31 \<le> (1 - 1 / 2 ^ 33) * (1 - ?u) * (1 - ?u)"
    "(1 + 1 / 2 ^ 32) * (1 + ?u) * (1 + ?u) \<le> 1 + 1 / 2 ^ 31"
    by (simp_all add: unitRoundoff_def)
  have x_lo': "100 * ?mean * (1 - 1 / 2 ^ 31) \<le> x"
  proof -
    have A: "(?mean * (1 - 1 / 2 ^ 33) * (1 - ?u)) * 100 * (1 - ?u) \<le> ?y2 * (1 - ?u)"
      using m_lo' u1(1) by (intro mult_right_mono) simp_all
    have B: "100 * ?mean * (1 - 1 / 2 ^ 31)
        \<le> 100 * ?mean * ((1 - 1 / 2 ^ 33) * (1 - ?u) * (1 - ?u))"
      using d(1) m0 by (intro mult_left_mono) simp_all
    have C: "100 * ?mean * ((1 - 1 / 2 ^ 33) * (1 - ?u) * (1 - ?u))
        = (?mean * (1 - 1 / 2 ^ 33) * (1 - ?u)) * 100 * (1 - ?u)"
      by (simp only: mult_ac)
    have "100 * ?mean * (1 - 1 / 2 ^ 31) \<le> ?y2 * (1 - ?u)"
      using B A unfolding C by (rule order_trans)
    then show ?thesis using x_lo by (rule order_trans)
  qed
  have x_hi': "x \<le> 100 * ?mean * (1 + 1 / 2 ^ 31)"
  proof -
    have A: "?y2 * (1 + ?u) \<le> (?mean * (1 + 1 / 2 ^ 32) * (1 + ?u)) * 100 * (1 + ?u)"
      using m_hi' u1(2) by (intro mult_right_mono) simp_all
    have B: "100 * ?mean * ((1 + 1 / 2 ^ 32) * (1 + ?u) * (1 + ?u))
        \<le> 100 * ?mean * (1 + 1 / 2 ^ 31)"
      using d(2) m0 by (intro mult_left_mono) simp_all
    have C: "100 * ?mean * ((1 + 1 / 2 ^ 32) * (1 + ?u) * (1 + ?u))
        = (?mean * (1 + 1 / 2 ^ 32) * (1 + ?u)) * 100 * (1 + ?u)"
      by (simp only: mult_ac)
    have "?y2 * (1 + ?u) \<le> 100 * ?mean * (1 + 1 / 2 ^ 31)"
      using A B unfolding C by (rule order_trans)
    with x_hi show ?thesis by (rule order_trans)
  qed
  let ?k = "\<lfloor>x + 1 / 2\<rfloor>"
  have k: "x - 1 / 2 < of_int ?k" "of_int ?k \<le> x + 1 / 2" by linarith+
  have avg: "averagePrice (computeStatistics ps) = toNumber (of_int ?k / 100)"
    using n s m x by (simp add: computeStatistics_def)
  define e where "e = ?mean / 2 ^ 31"
  have e: "0 \<le> e" "e \<le> ?mean / 4" using m0 by (simp_all add: e_def)
  have xl: "100 * ?mean - 100 * e \<le> x" using x_lo' by (simp add: e_def algebra_simps)
  have xh: "x \<le> 100 * ?mean + 100 * e" using x_hi' by (simp add: e_def algebra_simps)
  have near: "\<bar>of_int ?k / 100 - ?mean\<bar> \<le> 1 / 200 + ?mean / 2 ^ 31"
  proof -
    have "of_int ?k / 100 - ?mean \<le> 1 / 200 + e" using k(2) xh by linarith
    moreover have "- (of_int ?k / 100 - ?mean) \<le> 1 / 200 + e" using k(1) xl by linarith
    ultimately have "\<bar>of_int ?k / 100 - ?mean\<bar> \<le> 1 / 200 + e" by (rule abs_leI)
    then show ?thesis by (simp only: e_def)
  qed
  have "1 / 400 \<le> (of_int ?k :: rat) / 100" using k(1) xl e mean(1) by linarith
  moreover have "(of_int ?k :: rat) / 100 \<le> 2 ^ 50" using k(2) xh e mean(2) by simp
  ultimately obtain r where r: "toNumber (of_int ?k / 100) = Finite r"
    and r_lo: "of_int ?k / 100 * (1 - ?u) \<le> r" and r_hi: "r \<le> of_int ?k / 100 * (1 + ?u)"
    using toNumber_middle by blast
  have "\<bar>r - of_int ?k / 100\<bar> \<le> of_int ?k / 100 * ?u"
  proof -
    define c where "c = of_int ?k / 100 * ?u"
    have "of_int ?k / 100 - c \<le> r" using r_lo by (simp add: c_def algebra_simps)
    moreover have "r \<le> of_int ?k / 100 + c" using r_hi by (simp add: c_def algebra_simps)
    ultimately have "\<bar>r - of_int ?k / 100\<bar> \<le> c" by (simp only: abs_le_iff) linarith
    then show ?thesis by (simp only: c_def)
  qed
  then have "averagePrice (computeStatistics ps) = Finite r
      \<and> toNumber (of_int ?k / 100) = Finite r
      \<and> \<bar>r - of_int ?k / 100\<bar> \<le> of_int ?k / 100 * ?u
      \<and> \<bar>of_int ?k / 100 - ?mean\<bar> \<le> 1 / 200 + ?mean / 2 ^ 31"
    using avg r near by (simp only: simp_thms)
  then show ?thesis by (intro exI)
qed

lemma roundTiesToEven_numeral [simp]: "roundTiesToEven (numeral n) = numeral n"
  using roundTiesToEven_int [of "numeral n"] by simp

lemma toNumber_20: "toNumber 20 = Finite 20"
  using toNumber_eval [of 4 20 "20 * 2 ^ 48"] by simp

lemma toNumber_1: "toNumber 1 = Finite 1"
  using toNumber_eval [of 0 1 "2 ^ 52"] by simp

lemma toNumber_onePointZeroOne: "toNumber (101 / 100) = Finite onePointZeroOne"
proof -
  have "roundTiesToEven (101 / 100 * 2 ^ 52) = 4548635623644201"
    by (rule roundTiesToEven_near) simp
  then show ?thesis
    using toNumber_eval [of 0 "101 / 100" 4548635623644201]
    by (simp add: onePointZeroOne_def)
qed

text \<open>The operations of \<open>getStatistics\<close> on the prices \<open>1\<close> and \<open>1.01\<close>, one by one.\<close>

lemma plus_1: "Number_plus (Finite 0) 1 = Finite 1"
  by (simp add: toNumber_1)

lemma plus_onePointZeroOne:
  "Number_plus (Finite 1) onePointZeroOne = Finite (1131529406376837 / 562949953421312)"
proof -
  have "roundTiesToEven (9052235251014697 / 2) = 4526117625507348"
    by (rule roundTiesToEven_tie) simp_all
  then show ?thesis
    using toNumber_eval [of 1 "1 + onePointZeroOne" 4526117625507348]
    by (simp add: onePointZeroOne_def)
qed

lemma divide_2:
  "Number_divide (Finite (1131529406376837 / 562949953421312)) 2
     = Finite (1131529406376837 / 1125899906842624)"
  using toNumber_eval [of 0 "1131529406376837 / 2 ^ 49 / 2" 4526117625507348] by simp

lemma times_100:
  "Number_times (Finite (1131529406376837 / 1125899906842624)) 100
     = Finite (7072058789855231 / 70368744177664)"
proof -
  have "roundTiesToEven (28288235159420925 / 4) = 7072058789855231"
    by (rule roundTiesToEven_near) simp
  then show ?thesis
    using toNumber_eval [of 6 "1131529406376837 / 2 ^ 50 * 100" 7072058789855231]
    by simp
qed

lemma round_cents: "Math_round (Finite (7072058789855231 / 70368744177664)) = Finite 100"
proof -
  have "\<lfloor>7072058789855231 / 70368744177664 + 1 / 2 :: rat\<rfloor> = 100"
    by (rule floor_unique) simp_all
  then show ?thesis by simp
qed

lemma divide_100: "Number_divide (Finite 100) 100 = Finite 1"
  by (simp add: toNumber_1)

lemma centStore_average:
  "averagePrice (computeStatistics [mouse\<lparr>price := 1\<rparr>, teclado\<lparr>price := onePointZeroOne\<rparr>])
     = Finite 1"
proof -
  let ?ps = "[mouse\<lparr>price := 1\<rparr>, teclado\<lparr>price := onePointZeroOne\<rparr>]"
  have len: "(of_nat (length ?ps) :: rat) = 2" "length ?ps > 0" by simp_all
  have sum: "foldl (\<lambda>sum product. Number_plus sum (price product)) (Finite 0) ?ps
      = Finite (1131529406376837 / 562949953421312)"
    by (simp add: plus_1 plus_onePointZeroOne del: Number_plus.simps)
  show ?thesis
    unfolding computeStatistics_def
    by (simp only: len sum Let_def if_True divide_2 times_100 round_cents divide_100
        statistics.select_convs)
qed

lemma averagePrice_empty: "averagePrice (computeStatistics []) = Finite 0"
  by (simp add: computeStatistics_def)

lemma averagePrice_prices:
  assumes "map price qs = map price ps"
  shows "averagePrice (computeStatistics qs) = averagePrice (computeStatistics ps)"
proof -
  have f: "foldl (\<lambda>sum product. Number_plus sum (price product)) z xs
      = foldl Number_plus z (map price xs)" for z xs
    by (simp add: foldl_map)
  have "length qs = length ps" using assms by (rule map_eq_imp_length_eq)
  then show ?thesis using assms unfolding computeStatistics_def f by simp
qed

lemma getStatistics_value:
  "getAllProducts P now s = (Inr a, s1)
    \<Longrightarrow> getStatistics P now s = (Inr (computeStatistics (products_of s1 a)), s1)"
  by (simp add: getStatistics_def await_def)

text \<open>
  C9, as the code computes it. \<open>getStatistics\<close> returns as \<open>averagePrice\<close> the number
  \<open>Math.round((totalPrice / products.length) * 100) / 100\<close>, every operation rounded to
  binary64, over the records of the collection it read:
  \<^item> it is \<open>0\<close> for an empty collection;
  \<^item> it depends on the prices alone, so inactive records count as active ones do;
  \<^item> for at most \<open>2\<^sup>2\<^sup>0\<close> records priced from \<open>0.01\<close> to \<open>999999.99\<close> it is the binary64 number
    nearest to \<open>k / 100\<close> for a whole number \<open>k\<close> of cents, where \<open>k / 100\<close> lies within
    \<open>0.005 + mean / 2\<^sup>3\<^sup>1\<close> of the exact mean of the prices.
\<close>

theorem average_price_binary64:
  assumes "getAllProducts P now s = (Inr a, s1)"
  shows "\<exists>st. getStatistics P now s = (Inr st, s1)
           \<and> (products_of s1 a = [] \<longrightarrow> averagePrice st = Finite 0)
           \<and> (\<forall>qs. map price qs = map price (products_of s1 a)
                  \<longrightarrow> averagePrice (computeStatistics qs) = averagePrice st)
           \<and> (products_of s1 a \<noteq> []
                \<and> (\<forall>p\<in>set (products_of s1 a). 1 / 100 \<le> price p \<and> price p \<le> 99999999 / 100)
                \<and> length (products_of s1 a) \<le> 2 ^ 20
               \<longrightarrow> (\<exists>(k::int) r. averagePrice st = Finite r
                      \<and> toNumber (of_int k / 100) = Finite r
                      \<and> \<bar>r - of_int k / 100\<bar> \<le> of_int k / 100 * unitRoundoff
                      \<and> \<bar>of_int k / 100 - meanPrice (products_of s1 a)\<bar>
                          \<le> 1 / 200 + meanPrice (products_of s1 a) / 2 ^ 31))"
proof -
  let ?ps = "products_of s1 a"
  have 1: "getStatistics P now s = (Inr (computeStatistics ?ps), s1)"
    using assms by (rule getStatistics_value)
  have 2: "?ps = [] \<longrightarrow> averagePrice (computeStatistics ?ps) = Finite 0"
    by (simp add: averagePrice_empty)
  have 3: "\<forall>qs. map price qs = map price ?ps
      \<longrightarrow> averagePrice (computeStatistics qs) = averagePrice (computeStatistics ?ps)"
    by (intro allI impI) (rule averagePrice_prices)
  have 4: "?ps \<noteq> [] \<and> (\<forall>p\<in>set ?ps. 1 / 100 \<le> price p \<and> price p \<le> 99999999 / 100)
      \<and> length ?ps \<le> 2 ^ 20
      \<longrightarrow> (\<exists>(k::int) r. averagePrice (computeStatistics ?ps) = Finite r
            \<and> toNumber (of_int k / 100) = Finite r
            \<and> \<bar>r - of_int k / 100\<bar> \<le> of_int k / 100 * unitRoundoff
            \<and> \<bar>of_int k / 100 - meanPrice ?ps\<bar> \<le> 1 / 200 + meanPrice ?ps / 2 ^ 31)"
    by (intro impI, elim conjE) (rule averagePrice_bound)
  from 1 2 3 4 show ?thesis by (intro exI [of _ "computeStatistics ?ps"] conjI)
qed

lemma threeStore_read: "getAllProducts testPlatform 1000 threeStore = (Inr 4, threeStoreRead)"
proof -
  have v: "isCacheValid 1000 threeStore"
    by (simp add: isCacheValid_def threeStore_def cacheTimeout_def)
  show ?thesis
    unfolding getAllProducts_hit [OF v] by (simp add: threeStoreRead_def threeStore_def)
qed

lemma emptyStore_read: "getAllProducts testPlatform 1000 emptyStore = (Inr 1, emptyStoreRead)"
proof -
  have v: "isCacheValid 1000 emptyStore"
    by (simp add: isCacheValid_def emptyStore_def cacheTimeout_def)
  show ?thesis
    unfolding getAllProducts_hit [OF v] by (simp add: emptyStoreRead_def emptyStore_def)
qed

lemma centStore_read: "getAllProducts testPlatform 1000 centStore = (Inr 3, centStoreRead)"
proof -
  have v: "isCacheValid 1000 centStore"
    by (simp add: isCacheValid_def centStore_def cacheTimeout_def)
  show ?thesis
    unfolding getAllProducts_hit [OF v] by (simp add: centStoreRead_def centStore_def)
qed

lemma three_products:
  "products_of threeStoreRead 4
     = [mouse, teclado\<lparr>isActive := True\<rparr>, monitor\<lparr>isActive := False\<rparr>]"
  "products_of emptyStoreRead 1 = []"
  "products_of emptyStoreRead (Suc 0) = []"
  "products_of centStoreRead 3 = [mouse\<lparr>price := 1\<rparr>, teclado\<lparr>price := onePointZeroOne\<rparr>]"
  by (simp_all add: products_of_def threeStoreRead_def threeStore_def emptyStoreRead_def
      emptyStore_def centStoreRead_def centStore_def)

lemma three_prices:
  "map price [mouse, teclado\<lparr>isActive := True\<rparr>, monitor\<lparr>isActive := False\<rparr>] = [10, 20, 30]"
  "map isActive [mouse, teclado\<lparr>isActive := True\<rparr>, monitor\<lparr>isActive := False\<rparr>]
     = [True, True, False]"
  "meanPrice [mouse, teclado\<lparr>isActive := True\<rparr>, monitor\<lparr>isActive := False\<rparr>] = 20"
  "meanPrice (filter isActive [mouse, teclado\<lparr>isActive := True\<rparr>, monitor\<lparr>isActive := False\<rparr>])
     = 15"
  by (simp_all add: meanPrice_def mouse_def teclado_def monitor_def)

lemma cents_2000:
  assumes "\<bar>of_int k / 100 - 20\<bar> \<le> (1 / 200 + 20 / 2 ^ 31 :: rat)"
  shows "k = 2000"
proof -
  have a: "of_int k / 100 - 20 \<le> (1 / 200 + 20 / 2 ^ 31 :: rat)"
    "- (of_int k / 100 - 20) \<le> (1 / 200 + 20 / 2 ^ 31 :: rat)"
    using assms by (simp_all only: abs_le_iff)
  have c: "(20 / 2 ^ 31 :: rat) < 1 / 200" by simp
  have "(of_int k :: rat) < 2001" "(1999 :: rat) < of_int k" using a c by linarith+
  then have "k < 2001" "1999 < k" by linarith+
  then show ?thesis by linarith
qed

theorem average_price_binary64_witness:
  "getAllProducts testPlatform 1000 threeStore = (Inr 4, threeStoreRead)
   \<and> map price (products_of threeStoreRead 4) = [10, 20, 30]
   \<and> map isActive (products_of threeStoreRead 4) = [True, True, False]
   \<and> meanPrice (filter isActive (products_of threeStoreRead 4)) = 15
   \<and> (\<exists>st. getStatistics testPlatform 1000 threeStore = (Inr st, threeStoreRead)
          \<and> averagePrice st = Finite 20
          \<and> averagePrice (computeStatistics
                (map (\<lambda>p. p\<lparr>isActive := \<not> isActive p\<rparr>) (products_of threeStoreRead 4)))
              = averagePrice st)
   \<and> getAllProducts testPlatform 1000 emptyStore = (Inr 1, emptyStoreRead)
   \<and> products_of emptyStoreRead 1 = []
   \<and> (\<exists>st. getStatistics testPlatform 1000 emptyStore = (Inr st, emptyStoreRead)
          \<and> averagePrice st = Finite 0)"
proof -
  let ?ps = "[mouse, teclado\<lparr>isActive := True\<rparr>, monitor\<lparr>isActive := False\<rparr>]"
  have range: "\<forall>p\<in>set ?ps. 1 / 100 \<le> price p \<and> price p \<le> 99999999 / 100"
    by (simp add: mouse_def teclado_def monitor_def)
  note t = average_price_binary64 [OF threeStore_read, unfolded three_products]
  from t obtain st where
    st: "getStatistics testPlatform 1000 threeStore = (Inr st, threeStoreRead)"
    and c: "\<forall>qs. map price qs = map price ?ps
        \<longrightarrow> averagePrice (computeStatistics qs) = averagePrice st"
    and b: "?ps \<noteq> [] \<and> (\<forall>p\<in>set ?ps. 1 / 100 \<le> price p \<and> price p \<le> 99999999 / 100)
        \<and> length ?ps \<le> 2 ^ 20
      \<longrightarrow> (\<exists>(k::int) r. averagePrice st = Finite r
            \<and> toNumber (of_int k / 100) = Finite r
            \<and> \<bar>r - of_int k / 100\<bar> \<le> of_int k / 100 * unitRoundoff
            \<and> \<bar>of_int k / 100 - meanPrice ?ps\<bar> \<le> 1 / 200 + meanPrice ?ps / 2 ^ 31)"
    by iprover
  have "?ps \<noteq> [] \<and> (\<forall>p\<in>set ?ps. 1 / 100 \<le> price p \<and> price p \<le> 99999999 / 100)
        \<and> length ?ps \<le> 2 ^ 20"
    using range by simp
  with b have "\<exists>(k::int) r. averagePrice st = Finite r
            \<and> toNumber (of_int k / 100) = Finite r
            \<and> \<bar>r - of_int k / 100\<bar> \<le> of_int k / 100 * unitRoundoff
            \<and> \<bar>of_int k / 100 - meanPrice ?ps\<bar> \<le> 1 / 200 + meanPrice ?ps / 2 ^ 31"
    by (rule mp)
  then obtain k :: int and r where r: "averagePrice st = Finite r"
    and k: "toNumber (of_int k / 100) = Finite r"
    and near: "\<bar>of_int k / 100 - meanPrice ?ps\<bar> \<le> 1 / 200 + meanPrice ?ps / 2 ^ 31"
    by iprover
  have "k = 2000" using near unfolding three_prices by (rule cents_2000)
  with k have "r = 20" by (simp add: toNumber_20)
  note r20 = this
  have "map price (map (\<lambda>p. p\<lparr>isActive := \<not> isActive p\<rparr>) ?ps) = map price ?ps"
    by simp
  with c [rule_format, of "map (\<lambda>p. p\<lparr>isActive := \<not> isActive p\<rparr>) ?ps"]
  have f: "averagePrice (computeStatistics (map (\<lambda>p. p\<lparr>isActive := \<not> isActive p\<rparr>) ?ps))
      = averagePrice st" .
  have "getStatistics testPlatform 1000 threeStore = (Inr st, threeStoreRead)
      \<and> averagePrice st = Finite 20
      \<and> averagePrice (computeStatistics
            (map (\<lambda>p. p\<lparr>isActive := \<not> isActive p\<rparr>) (products_of threeStoreRead 4)))
          = averagePrice st"
    using st r r20 f by (simp only: three_products simp_thms)
  then have 1: "\<exists>st. getStatistics testPlatform 1000 threeStore = (Inr st, threeStoreRead)
          \<and> averagePrice st = Finite 20
          \<and> averagePrice (computeStatistics
                (map (\<lambda>p. p\<lparr>isActive := \<not> isActive p\<rparr>) (products_of threeStoreRead 4)))
              = averagePrice st"
    by (rule exI)
  note e = average_price_binary64 [OF emptyStore_read, unfolded three_products]
  from e obtain st0 where
    "getStatistics testPlatform 1000 emptyStore = (Inr st0, emptyStoreRead)"
    and "[] = ([] :: product list) \<longrightarrow> averagePrice st0 = Finite 0"
    by iprover
  then have 2: "\<exists>st. getStatistics testPlatform 1000 emptyStore = (Inr st, emptyStoreRead)
          \<and> averagePrice st = Finite 0"
    by simp
  have 3: "map price (products_of threeStoreRead 4) = [10, 20, 30]"
    "map isActive (products_of threeStoreRead 4) = [True, True, False]"
    "meanPrice (filter isActive (products_of threeStoreRead 4)) = 15"
    "products_of emptyStoreRead 1 = []"
    by (simp_all only: three_products three_prices)
  from 1 2 3 threeStore_read emptyStore_read show ?thesis
    by (simp only: simp_thms)
qed

text \<open>
  C9, as the specification states it, fails on \<open>centStore\<close>, whose two products are priced
  \<open>1\<close> and \<open>1.01\<close>: their mean rounded to two decimal places is \<open>1.01\<close>, and \<open>getStatistics\<close>
  returns \<open>1\<close>, more than half a cent below the mean. The sum \<open>1 + 1.01\<close> is rounded down to binary64, and so is its half times
  \<open>100\<close>, which ends below \<open>100.5\<close>.
\<close>

theorem average_price_counterexample:
  "getAllProducts testPlatform 1000 centStore = (Inr 3, centStoreRead)
   \<and> map price (products_of centStoreRead 3) = [1, onePointZeroOne]
   \<and> toNumber (101 / 100) = Finite onePointZeroOne
   \<and> roundTo2 (meanPrice (products_of centStoreRead 3)) = 101 / 100
   \<and> 1 / 200 < meanPrice (products_of centStoreRead 3) - 1
   \<and> averagePrice (projr (fst (getStatistics testPlatform 1000 centStore))) = Finite 1
   \<and> \<not> averagePrice (projr (fst (getStatistics testPlatform 1000 centStore)))
         = toNumber (roundTo2 (meanPrice (products_of centStoreRead 3)))"
proof -
  have m: "meanPrice [mouse\<lparr>price := 1\<rparr>, teclado\<lparr>price := onePointZeroOne\<rparr>]
      = 9052235251014697 / 9007199254740992"
    by (simp add: meanPrice_def onePointZeroOne_def)
  have "\<lfloor>9052235251014697 / 9007199254740992 * 100 + 1 / 2 :: rat\<rfloor> = 101"
    by (rule floor_unique) simp_all
  then have r: "roundTo2 (9052235251014697 / 9007199254740992) = 101 / 100"
    by (simp add: roundTo2_def)
  have s: "getStatistics testPlatform 1000 centStore
      = (Inr (computeStatistics (products_of centStoreRead 3)), centStoreRead)"
    using centStore_read by (rule getStatistics_value)
  have n: "onePointZeroOne \<noteq> 1" by (simp add: onePointZeroOne_def)
  show ?thesis
    unfolding s three_products
    by (simp add: centStore_read three_products m r centStore_average toNumber_onePointZeroOne n
        n [symmetric])
qed

subsection \<open>Copies and aliases\<close>

lemma paginate_post:
  assumes "paginate f a s = (b, s')"
  shows "objects s' = objects s \<and> cache s' = cache s \<and> cacheTimestamp s' = cacheTimestamp s
         \<and> (\<forall>c<fresh s. arrays s' c = arrays s c) \<and> (b = a \<or> fresh s \<le> b)"
  using assms
  by (auto simp: paginate_def newArray_def Let_def split: option.splits if_splits)

lemma search_frame:
  assumes read: "getAllProducts P now s = (Inr a, s0)"
  shows "\<exists>b t s'. searchProducts P now f s = (Inr (b, t), s')
           \<and> (b = a \<or> fresh s0 \<le> b) \<and> cache s' = cache s0
           \<and> cacheTimestamp s' = cacheTimestamp s0
           \<and> (\<forall>c<fresh s0. c \<noteq> a \<longrightarrow> arrays s' c = arrays s0 c)"
proof -
  obtain b1 s1 where 1: "filterSearch P f a s0 = (b1, s1)" by (cases "filterSearch P f a s0")
  obtain b2 s2 where 2: "filterCategory P f b1 s1 = (b2, s2)" by (cases "filterCategory P f b1 s1")
  obtain b3 s3 where 3: "filterActive f b2 s2 = (b3, s3)" by (cases "filterActive f b2 s2")
  note c = filters_compose [OF read 1 2 3]
  let ?s4 = "sortProducts P f b3 s3"
  note s = sortProducts_post [of P f b3 s3]
  obtain b4 s5 where 4: "paginate f b3 ?s4 = (b4, s5)" by (cases "paginate f b3 ?s4")
  note p = paginate_post [OF 4]
  have r: "searchProducts P now f s = (Inr (b4, int (length (arrays ?s4 b3))), s5)"
    using read 1 2 3 4 by (simp add: searchProducts_def await_def Let_def)
  have f4: "fresh ?s4 = fresh s3" using s by blast
  have b4: "b4 = a \<or> fresh s0 \<le> b4"
  proof -
    have "b3 = a \<or> fresh s0 \<le> b3" using c by blast
    moreover have "b4 = b3 \<or> fresh s3 \<le> b4" using p f4 by simp
    moreover have "fresh s0 \<le> fresh s3" using c by blast
    ultimately show ?thesis by linarith
  qed
  have k: "cache s5 = cache s0 \<and> cacheTimestamp s5 = cacheTimestamp s0"
  proof -
    have "cache s3 = cache s0 \<and> cacheTimestamp s3 = cacheTimestamp s0" using c by blast
    moreover have "cache ?s4 = cache s3 \<and> cacheTimestamp ?s4 = cacheTimestamp s3" using s by blast
    moreover have "cache s5 = cache ?s4 \<and> cacheTimestamp s5 = cacheTimestamp ?s4" using p by blast
    ultimately show ?thesis by simp
  qed
  have "\<forall>c<fresh s0. c \<noteq> a \<longrightarrow> arrays s5 c = arrays s0 c"
  proof (intro allI impI)
    fix x assume x: "x < fresh s0" "x \<noteq> a"
    have le: "fresh s0 \<le> fresh s3" using c by blast
    have "b3 = a \<or> fresh s0 \<le> b3" using c by blast
    with x have n: "x \<noteq> b3" by linarith
    have "arrays s3 x = arrays s0 x" using c x(1) by blast
    moreover have "arrays ?s4 x = arrays s3 x" using s n by blast
    moreover have "arrays s5 x = arrays ?s4 x" using p f4 x(1) le by simp
    ultimately show "arrays s5 x = arrays s0 x" by simp
  qed
  with r b4 k show ?thesis by blast
qed

lemma read_after_assignment:
  assumes "isCacheValid now' s1" and "cache s1 = Some c" and "a \<noteq> c"
  shows "\<exists>b s2. getAllProducts P now' (callerAssigns a xs s1) = (Inr b, s2)
           \<and> arrays s2 b = arrays s1 c"
proof -
  have "isCacheValid now' (callerAssigns a xs s1)"
    using assms(1) by (simp add: isCacheValid_def callerAssigns_def)
  from getAllProducts_hit [OF this, of P] assms(2,3) show ?thesis
    by (simp add: callerAssigns_def)
qed

text \<open>
  C10, as the code has it. A read that finds the cache valid returns a new array with the
  elements of the cached array, and a search that finds the cache valid returns an array
  other than the cached one and leaves the cached array as it was. So whatever the caller
  assigns to the returned array (\<open>push\<close>, \<open>splice\<close>, an indexed assignment), a later read
  within the validity of the cache returns the elements the cache held. The records
  themselves are shared with the cache.
\<close>

theorem cached_read_returns_new_array:
  assumes "isCacheValid now s" and "cache s = Some c" and "c < fresh s"
  shows "(\<exists>a s1. getAllProducts P now s = (Inr a, s1) \<and> a \<noteq> c \<and> arrays s1 a = arrays s c
            \<and> cache s1 = Some c
            \<and> (\<forall>xs now'. isCacheValid now' s \<longrightarrow>
                  (\<exists>b s2. getAllProducts P now' (callerAssigns a xs s1) = (Inr b, s2)
                      \<and> arrays s2 b = arrays s c)))
         \<and> (\<exists>a t s1. searchProducts P now f s = (Inr (a, t), s1) \<and> a \<noteq> c \<and> cache s1 = Some c
            \<and> (\<forall>xs now'. isCacheValid now' s \<longrightarrow>
                  (\<exists>b s2. getAllProducts P now' (callerAssigns a xs s1) = (Inr b, s2)
                      \<and> arrays s2 b = arrays s c)))"
proof
  let ?s1 = "s\<lparr>arrays := (arrays s)(fresh s := arrays s c), fresh := Suc (fresh s)\<rparr>"
  have read: "getAllProducts P now s = (Inr (fresh s), ?s1)"
    using getAllProducts_hit [OF assms(1), of P] assms(2) by simp
  have n: "fresh s \<noteq> c" using assms(3) by simp
  have c1: "cache ?s1 = Some c" "arrays ?s1 c = arrays s c" "arrays ?s1 (fresh s) = arrays s c"
    using assms(2) n by simp_all
  have v1: "isCacheValid now' ?s1" if "isCacheValid now' s" for now'
    using that by (simp add: isCacheValid_def)
  have "\<forall>xs now'. isCacheValid now' s \<longrightarrow>
                  (\<exists>b s2. getAllProducts P now' (callerAssigns (fresh s) xs ?s1) = (Inr b, s2)
                      \<and> arrays s2 b = arrays s c)"
    using read_after_assignment [OF v1 c1(1) n, of _ P] c1(2) by simp
  with read n c1 show "\<exists>a s1. getAllProducts P now s = (Inr a, s1) \<and> a \<noteq> c \<and> arrays s1 a = arrays s c
            \<and> cache s1 = Some c
            \<and> (\<forall>xs now'. isCacheValid now' s \<longrightarrow>
                  (\<exists>b s2. getAllProducts P now' (callerAssigns a xs s1) = (Inr b, s2)
                      \<and> arrays s2 b = arrays s c))"
    by blast
  from search_frame [OF read, of f] obtain b t s' where
    r: "searchProducts P now f s = (Inr (b, t), s')"
    and b: "b = fresh s \<or> fresh ?s1 \<le> b" and k: "cache s' = cache ?s1"
    and ts: "cacheTimestamp s' = cacheTimestamp ?s1"
    and fr: "\<forall>x<fresh ?s1. x \<noteq> fresh s \<longrightarrow> arrays s' x = arrays ?s1 x" by blast
  have bc: "b \<noteq> c" using b assms(3) by auto
  have k': "cache s' = Some c" using k c1(1) by simp
  have "arrays s' c = arrays ?s1 c" using fr assms(3) n by simp
  then have ac: "arrays s' c = arrays s c" using c1(2) by simp
  have v2: "isCacheValid now' s'" if "isCacheValid now' s" for now'
    using that k ts by (simp add: isCacheValid_def)
  have "\<forall>xs now'. isCacheValid now' s \<longrightarrow>
                  (\<exists>b' s2. getAllProducts P now' (callerAssigns b xs s') = (Inr b', s2)
                      \<and> arrays s2 b' = arrays s c)"
    using read_after_assignment [OF v2 k' bc, of _ P] ac by simp
  with r bc k' show "\<exists>a t s1. searchProducts P now f s = (Inr (a, t), s1) \<and> a \<noteq> c \<and> cache s1 = Some c
            \<and> (\<forall>xs now'. isCacheValid now' s \<longrightarrow>
                  (\<exists>b s2. getAllProducts P now' (callerAssigns a xs s1) = (Inr b, s2)
                      \<and> arrays s2 b = arrays s c))"
    by blast
qed

theorem cached_read_returns_new_array_witness:
  "isCacheValid 1000 cachedStore \<and> cache cachedStore = Some 0 \<and> 0 < fresh cachedStore
   \<and> isCacheValid 2000 cachedStore \<and> arrays cachedStore 0 = [1, 2]
   \<and> (\<exists>a s1. getAllProducts testPlatform 1000 cachedStore = (Inr a, s1) \<and> a \<noteq> 0
          \<and> arrays s1 a = [1, 2]
          \<and> (\<exists>b s2. getAllProducts testPlatform 2000 (callerAssigns a [] s1) = (Inr b, s2)
                 \<and> arrays s2 b = [1, 2]))
   \<and> (\<exists>a t s1. searchProducts testPlatform 1000 noFilters cachedStore = (Inr (a, t), s1) \<and> a \<noteq> 0
          \<and> (\<exists>b s2. getAllProducts testPlatform 2000 (callerAssigns a [] s1) = (Inr b, s2)
                 \<and> arrays s2 b = [1, 2]))"
proof -
  have h: "isCacheValid 1000 cachedStore" "cache cachedStore = Some 0" "0 < fresh cachedStore"
    and v: "isCacheValid 2000 cachedStore" and a: "arrays cachedStore 0 = [1, 2]"
    by (simp_all add: isCacheValid_def cachedStore_def cacheTimeout_def)
  note t = cached_read_returns_new_array [OF h, of testPlatform noFilters]
  from t [THEN conjunct1] v
  have 1: "\<exists>a s1. getAllProducts testPlatform 1000 cachedStore = (Inr a, s1) \<and> a \<noteq> 0
          \<and> arrays s1 a = [1, 2]
          \<and> (\<exists>b s2. getAllProducts testPlatform 2000 (callerAssigns a [] s1) = (Inr b, s2)
                 \<and> arrays s2 b = [1, 2])"
    unfolding a by blast
  from t [THEN conjunct2] v
  have 2: "\<exists>a t s1. searchProducts testPlatform 1000 noFilters cachedStore = (Inr (a, t), s1) \<and> a \<noteq> 0
          \<and> (\<exists>b s2. getAllProducts testPlatform 2000 (callerAssigns a [] s1) = (Inr b, s2)
                 \<and> arrays s2 b = [1, 2])"
    unfolding a by blast
  from h v a 1 2 show ?thesis by blast
qed

lemma cachedStoreRead_valid: "isCacheValid 1000 cachedStoreRead"
  by (simp add: isCacheValid_def cachedStoreRead_def cachedStore_def cacheTimeout_def)

lemma readProducts_cachedStoreRead:
  "readProducts testPlatform 1000 cachedStoreRead = [mouse, teclado]"
  unfolding readProducts_def getAllProducts_hit [OF cachedStoreRead_valid]
  by (simp add: products_of_def cachedStoreRead_def cachedStore_def)

lemma readProducts_after_setStock:
  "readProducts testPlatform 1000 (callerSetsStock 1 0 cachedStoreRead)
     = [mouse\<lparr>stock := 0\<rparr>, teclado]"
proof -
  have "isCacheValid 1000 (callerSetsStock 1 0 cachedStoreRead)"
    using cachedStoreRead_valid by (simp add: isCacheValid_def callerSetsStock_def)
  from getAllProducts_hit [OF this, of testPlatform] show ?thesis
    by (simp add: readProducts_def products_of_def callerSetsStock_def cachedStoreRead_def
        cachedStore_def)
qed

text \<open>
  C10, as the specification states it, fails on \<open>cachedStore\<close>: the read returns array \<open>3\<close>,
  whose first element is the record \<open>1\<close> of the cached array. When the caller sets the
  stock of this record to 0, the next read returns the changed record.
\<close>

theorem returned_record_is_shared_counterexample:
  "getAllProducts testPlatform 1000 cachedStore = (Inr 3, cachedStoreRead)
   \<and> arrays cachedStoreRead 3 = [1, 2]
   \<and> readProducts testPlatform 1000 cachedStoreRead = [mouse, teclado]
   \<and> readProducts testPlatform 1000 (callerSetsStock 1 0 cachedStoreRead)
       = [mouse\<lparr>stock := 0\<rparr>, teclado]
   \<and> readProducts testPlatform 1000 (callerSetsStock 1 0 cachedStoreRead)
       \<noteq> readProducts testPlatform 1000 cachedStoreRead"
  unfolding readProducts_cachedStoreRead readProducts_after_setStock
  by (simp add: cachedStore_read cachedStoreRead_simps mouse_def)

text \<open>
  The read that misses the cache and parses the primary file returns the very array it
  stores as the cache: on \<open>coldStore\<close> the read returns array \<open>2\<close> and the cache is array
  \<open>2\<close>, so emptying the returned array empties what the next read returns.
\<close>

lemma coldStore_read: "getAllProducts testPlatform 1000 coldStore = (Inr 2, coldStoreRead)"
  by (simp add: getAllProducts_def isCacheValid_def readFromFile_def coldStore_def
      newObject_def newArray_def coldStoreRead_def numeral_2_eq_2)

lemma read_after_miss_returns_cache_array:
  "getAllProducts testPlatform 1000 coldStore = (Inr 2, coldStoreRead)
   \<and> cache coldStoreRead = Some 2
   \<and> readProducts testPlatform 1000 coldStoreRead = [mouse, teclado]
   \<and> readProducts testPlatform 1000 (callerAssigns 2 [] coldStoreRead) = []"
proof -
  have v: "isCacheValid 1000 coldStoreRead" "isCacheValid 1000 (callerAssigns 2 [] coldStoreRead)"
    by (simp_all add: isCacheValid_def coldStoreRead_def callerAssigns_def cacheTimeout_def)
  have "readProducts testPlatform 1000 coldStoreRead = [mouse, teclado]"
    unfolding readProducts_def getAllProducts_hit [OF v(1)]
    by (simp add: products_of_def coldStoreRead_def)
  moreover have "readProducts testPlatform 1000 (callerAssigns 2 [] coldStoreRead) = []"
    unfolding readProducts_def getAllProducts_hit [OF v(2)]
    by (simp add: products_of_def coldStoreRead_def callerAssigns_def)
  ultimately show ?thesis
    using coldStore_read by (simp add: coldStoreRead_def)
qed

end
